theory Spec2Isabelle
  imports Complex_Main "HOL-Library.AList" "HOL-Library.Extended_Nat" "HOL-Library.Log_Nat"
begin

section \<open>Conventions of the embedding\<close>

text \<open>
  The two classes verified here are \<^verbatim>\<open>Cache\<close> (the utility class with the
  \<^verbatim>\<open>lru\<close>/\<^verbatim>\<open>fifo\<close>/\<^verbatim>\<open>lfu\<close> strategies) and
  \<^verbatim>\<open>RateLimiter\<close> with its subclasses in \<^verbatim>\<open>src/utils/RateLimiter.js\<close>.

  \<^item> Every call of \<^verbatim>\<open>Date.now()\<close> is a parameter of the function that makes
    it, in the order of the calls; a timestamp is an \<open>int\<close> (milliseconds).
  \<^item> A JavaScript \<^verbatim>\<open>Map\<close> is an association list in insertion order:
    \<^verbatim>\<open>Map.set\<close> is \<open>AList.update\<close> (an existing key keeps its place, a
    new key goes to the end), \<^verbatim>\<open>Map.delete\<close> is \<open>AList.delete\<close>,
    \<^verbatim>\<open>Map.get\<close> is \<open>map_of\<close> and \<^verbatim>\<open>Map.size\<close> is the length.
  \<^item> Keys are strings. Timestamps, configuration numbers and counters are integers,
    which a JavaScript number holds exactly below \<open>2^53\<close>; a sum, product or quotient
    is rounded to the nearest double, as JavaScript rounds it.
  \<^item> \<^verbatim>\<open>a || b\<close> takes \<open>b\<close> when \<open>a\<close> is missing, \<open>0\<close> or the
    empty string.
\<close>

type_synonym key = string

definition or_num :: "int option \<Rightarrow> int \<Rightarrow> int" where
  "or_num v d = (case v of None \<Rightarrow> d | Some n \<Rightarrow> if n = 0 then d else n)"

definition or_str :: "string option \<Rightarrow> string \<Rightarrow> string" where
  "or_str v d = (case v of None \<Rightarrow> d | Some s \<Rightarrow> if s = [] then d else s)"

section \<open>Cache\<close>

record 'v item =
  item_value :: 'v
  expiresAt :: int
  createdAt :: int

record cache_stats =
  hits :: nat
  misses :: nat
  sets :: nat
  deletes :: nat
  evictions :: nat

record 'v cache =
  maxSize :: int
  ttl :: int
  strategy :: string
  data :: "(key \<times> 'v item) list"
  accessTimes :: "(key \<times> int) list"
  accessCounts :: "(key \<times> nat) list"
  insertionOrder :: "key list"
  stats :: cache_stats

record cache_options =
  opt_maxSize :: "int option"
  opt_ttl :: "int option"
  opt_strategy :: "string option"

text \<open>
  The constructor has no \<^verbatim>\<open>throw\<close>: given an options object it is a total
  function of the options, \<open>Cache_constructor\<close>.
\<close>

definition Cache_constructor :: "cache_options \<Rightarrow> 'v cache" where
  "Cache_constructor options =
     \<lparr> maxSize = or_num (opt_maxSize options) 1000,
       ttl = or_num (opt_ttl options) 300,
       strategy = or_str (opt_strategy options) ''lru'',
       data = [],
       accessTimes = [],
       accessCounts = [],
       insertionOrder = [],
       stats = \<lparr> hits = 0, misses = 0, sets = 0, deletes = 0, evictions = 0 \<rparr> \<rparr>"

text \<open>
  \<^verbatim>\<open>new Cache(options)\<close> for any argument. The default \<^verbatim>\<open>options = {}\<close>
  replaces a missing or \<^verbatim>\<open>undefined\<close> argument only; reading a property of
  \<^verbatim>\<open>null\<close> raises a \<^verbatim>\<open>TypeError\<close>, and a number, string or boolean
  has none of the options.
\<close>

datatype 'a argument = Undefined | Null | Primitive | Object 'a

datatype js_error = TypeError

definition new_Cache :: "cache_options argument \<Rightarrow> js_error + 'v cache" where
  "new_Cache arg =
     (case arg of
        Null \<Rightarrow> Inl TypeError
      | Object options \<Rightarrow> Inr (Cache_constructor options)
      | _ \<Rightarrow> Inr (Cache_constructor
                    \<lparr> opt_maxSize = None, opt_ttl = None, opt_strategy = None \<rparr>))"

definition Cache_size :: "'v cache \<Rightarrow> nat" where
  "Cache_size c = length (data c)"

definition Cache_delete :: "key \<Rightarrow> 'v cache \<Rightarrow> bool \<times> 'v cache" where
  "Cache_delete k c =
     (if map_of (data c) k \<noteq> None
      then (True,
            c\<lparr> data := AList.delete k (data c),
               accessTimes := AList.delete k (accessTimes c),
               accessCounts := AList.delete k (accessCounts c),
               insertionOrder := remove1 k (insertionOrder c),
               stats := (stats c)\<lparr> deletes := deletes (stats c) + 1 \<rparr> \<rparr>)
      else (False, c))"

text \<open>The loop of \<^verbatim>\<open>findLRUKey\<close>, with its two variables as accumulators.\<close>

fun lru_scan :: "(key \<times> int) list \<Rightarrow> int \<Rightarrow> key option \<Rightarrow> key option" where
  "lru_scan [] oldestTime oldestKey = oldestKey"
| "lru_scan ((k, time) # rest) oldestTime oldestKey =
     (if time < oldestTime then lru_scan rest time (Some k)
      else lru_scan rest oldestTime oldestKey)"

definition findLRUKey :: "int \<Rightarrow> 'v cache \<Rightarrow> key option" where
  "findLRUKey now c = lru_scan (accessTimes c) now None"

definition findFIFOKey :: "'v cache \<Rightarrow> key option" where
  "findFIFOKey c =
     (case insertionOrder c of
        [] \<Rightarrow> None
      | k # _ \<Rightarrow> if k = [] then None else Some k)"

text \<open>The loop of \<^verbatim>\<open>findLFUKey\<close>; \<open>\<infinity>\<close> is \<^verbatim>\<open>Infinity\<close>.\<close>

fun lfu_scan :: "(key \<times> nat) list \<Rightarrow> enat \<Rightarrow> key option \<Rightarrow> key option" where
  "lfu_scan [] lowestCount leastUsedKey = leastUsedKey"
| "lfu_scan ((k, count) # rest) lowestCount leastUsedKey =
     (if enat count < lowestCount then lfu_scan rest (enat count) (Some k)
      else lfu_scan rest lowestCount leastUsedKey)"

definition findLFUKey :: "'v cache \<Rightarrow> key option" where
  "findLFUKey c = lfu_scan (accessCounts c) \<infinity> None"

text \<open>
  \<^verbatim>\<open>if (keyToEvict)\<close> is false for \<^verbatim>\<open>null\<close> and for the empty string.
  The argument is the clock read inside \<^verbatim>\<open>findLRUKey\<close>.
\<close>

definition evict :: "int \<Rightarrow> 'v cache \<Rightarrow> 'v cache" where
  "evict now c =
     (let keyToEvict =
            (if strategy c = ''lru'' then findLRUKey now c
             else if strategy c = ''fifo'' then findFIFOKey c
             else if strategy c = ''lfu'' then findLFUKey c
             else findLRUKey now c)
      in case keyToEvict of
           None \<Rightarrow> c
         | Some k \<Rightarrow>
             if k = [] then c
             else (let c' = snd (Cache_delete k c)
                   in c'\<lparr> stats := (stats c')\<lparr> evictions := evictions (stats c') + 1 \<rparr> \<rparr>))"

text \<open>
  \<^verbatim>\<open>set(key, value, customTtl)\<close>: \<open>now\<close> is the clock read at its first line,
  \<open>nowEvict\<close> the one read by \<^verbatim>\<open>findLRUKey\<close> if eviction runs.
\<close>

definition Cache_set ::
  "int \<Rightarrow> int \<Rightarrow> key \<Rightarrow> 'v \<Rightarrow> int option \<Rightarrow> 'v cache \<Rightarrow> bool \<times> 'v cache" where
  "Cache_set now nowEvict k v customTtl c =
     (let expires = now + or_num customTtl (ttl c) * 1000;
          c1 = (if maxSize c \<le> int (length (data c)) \<and> map_of (data c) k = None
                then evict nowEvict c else c);
          c2 = c1\<lparr> data :=
                     AList.update k \<lparr> item_value = v, expiresAt = expires, createdAt = now \<rparr>
                       (data c1),
                   accessTimes := AList.update k now (accessTimes c1),
                   accessCounts := AList.update k 0 (accessCounts c1),
                   insertionOrder :=
                     (if k \<in> set (insertionOrder c1) then insertionOrder c1
                      else insertionOrder c1 @ [k]) \<rparr>
      in (True, c2\<lparr> stats := (stats c2)\<lparr> sets := sets (stats c2) + 1 \<rparr> \<rparr>))"

text \<open>
  \<^verbatim>\<open>get(key)\<close>: \<open>None\<close> is the \<^verbatim>\<open>null\<close> it returns on a miss. \<open>now\<close> is
  the clock of the expiry test, \<open>now'\<close> the one stored as access time.
\<close>

definition Cache_get :: "int \<Rightarrow> int \<Rightarrow> key \<Rightarrow> 'v cache \<Rightarrow> 'v option \<times> 'v cache" where
  "Cache_get now now' k c =
     (case map_of (data c) k of
        None \<Rightarrow> (None, c\<lparr> stats := (stats c)\<lparr> misses := misses (stats c) + 1 \<rparr> \<rparr>)
      | Some it \<Rightarrow>
          if now > expiresAt it
          then (let c' = snd (Cache_delete k c)
                in (None, c'\<lparr> stats := (stats c')\<lparr> misses := misses (stats c') + 1 \<rparr> \<rparr>))
          else (Some (item_value it),
                c\<lparr> accessTimes := AList.update k now' (accessTimes c),
                   accessCounts :=
                     AList.update k
                       ((case map_of (accessCounts c) k of None \<Rightarrow> 0 | Some n \<Rightarrow> n) + 1)
                       (accessCounts c),
                   stats := (stats c)\<lparr> hits := hits (stats c) + 1 \<rparr> \<rparr>))"

definition Cache_has :: "int \<Rightarrow> key \<Rightarrow> 'v cache \<Rightarrow> bool \<times> 'v cache" where
  "Cache_has now k c =
     (case map_of (data c) k of
        None \<Rightarrow> (False, c)
      | Some it \<Rightarrow>
          if now > expiresAt it then (False, snd (Cache_delete k c))
          else (True, c))"

text \<open>A run of \<^verbatim>\<open>set\<close> calls, each with its two clock readings.\<close>

fun set_all :: "(int \<times> int \<times> key \<times> 'v \<times> int option) list \<Rightarrow> 'v cache \<Rightarrow> 'v cache" where
  "set_all [] c = c"
| "set_all ((now, nowEvict, k, v, customTtl) # calls) c =
     set_all calls (snd (Cache_set now nowEvict k v customTtl c))"

section \<open>JavaScript numbers\<close>

text \<open>
  A number is a double: 53 bits of significand, binary exponents from \<open>-1074\<close> for
  the last bit of the smallest numbers, and \<^verbatim>\<open>Infinity\<close> from \<open>2^1024\<close> on.
  \<open>round_double x\<close> is the double nearest to the rational \<open>x\<close>, a tie going to the
  even significand, before the test for overflow: \<open>ilog2 x\<close> is the exponent of the
  leading bit of \<open>x\<close>, so \<open>x\<close> is rounded to a multiple of \<open>2^(ilog2 x - 52)\<close>.
\<close>

definition pow2 :: "int \<Rightarrow> rat" where
  "pow2 e = (if 0 \<le> e then 2 ^ nat e else 1 / 2 ^ nat (- e))"

definition ilog2 :: "rat \<Rightarrow> int" where
  "ilog2 x = (if 1 \<le> x then bitlen \<lfloor>x\<rfloor> - 1 else - bitlen (\<lceil>1 / x\<rceil> - 1))"

definition round_even :: "rat \<Rightarrow> int" where
  "round_even q =
     (let f = \<lfloor>q\<rfloor>; r = q - of_int f
      in if r < 1 / 2 then f else if 1 / 2 < r then f + 1 else if even f then f else f + 1)"

definition round_double :: "rat \<Rightarrow> rat" where
  "round_double x =
     (if x = 0 then 0
      else (let e = max (ilog2 \<bar>x\<bar> - 52) (- 1074);
                m = round_even (\<bar>x\<bar> / pow2 e)
            in sgn x * of_int m * pow2 e))"

text \<open>
  A quotient, a parsed header or a running average can be \<^verbatim>\<open>Infinity\<close> or
  \<^verbatim>\<open>NaN\<close>. \<open>NonFinite\<close> stands for both: every operation used here
  (\<open>+\<close>, \<open>*\<close>, division by a finite number, \<^verbatim>\<open>Math.max\<close> where
  \<^verbatim>\<open>-Infinity\<close> cannot arise) gives a non-finite result on a non-finite
  operand.
\<close>

datatype jsnum = Finite rat | NonFinite

definition double_of :: "rat \<Rightarrow> jsnum" where
  "double_of x = (if \<bar>round_double x\<bar> < 2 ^ 1024 then Finite (round_double x) else NonFinite)"

fun js_lift2 :: "(rat \<Rightarrow> rat \<Rightarrow> rat) \<Rightarrow> jsnum \<Rightarrow> jsnum \<Rightarrow> jsnum" where
  "js_lift2 f (Finite a) (Finite b) = double_of (f a b)"
| "js_lift2 f _ _ = NonFinite"

definition js_add :: "jsnum \<Rightarrow> jsnum \<Rightarrow> jsnum" where
  "js_add = js_lift2 (+)"

definition js_mul :: "jsnum \<Rightarrow> jsnum \<Rightarrow> jsnum" where
  "js_mul = js_lift2 (*)"

text \<open>\<^verbatim>\<open>Math.max\<close> of two doubles is one of them: nothing is rounded.\<close>

fun js_max :: "jsnum \<Rightarrow> jsnum \<Rightarrow> jsnum" where
  "js_max (Finite a) (Finite b) = Finite (max a b)"
| "js_max _ _ = NonFinite"

text \<open>Division by a finite number: by zero the result is not finite.\<close>

fun js_div :: "jsnum \<Rightarrow> rat \<Rightarrow> jsnum" where
  "js_div (Finite a) b = (if b = 0 then NonFinite else double_of (a / b))"
| "js_div NonFinite b = NonFinite"

section \<open>RateLimiter\<close>

record limiter_stats =
  totalRequests :: nat
  rejectedRequests :: nat
  averageWaitTime :: jsnum

record limiter =
  requestsPerMinute :: int
  burstLimit :: int
  tokens :: int
  lastRefill :: int
  requests :: "int list"
  rl_stats :: limiter_stats

text \<open>
  \<^verbatim>\<open>this.windowSizeMs\<close> is assigned the literal once, in the constructor, and
  no method writes it.
\<close>

definition windowSizeMs :: int where
  "windowSizeMs = 60000"

record limiter_options =
  opt_requestsPerMinute :: "int option"
  opt_burstLimit :: "int option"

text \<open>The constructor reads the clock once, for \<^verbatim>\<open>lastRefill\<close>.\<close>

definition RateLimiter_constructor :: "limiter_options \<Rightarrow> int \<Rightarrow> limiter" where
  "RateLimiter_constructor options now =
     \<lparr> requestsPerMinute = or_num (opt_requestsPerMinute options) 60,
       burstLimit = or_num (opt_burstLimit options) 10,
       tokens = or_num (opt_burstLimit options) 10,
       lastRefill = now,
       requests = [],
       rl_stats = \<lparr> totalRequests = 0, rejectedRequests = 0, averageWaitTime = Finite 0 \<rparr> \<rparr>"

definition new_RateLimiter :: "limiter_options argument \<Rightarrow> int \<Rightarrow> js_error + limiter" where
  "new_RateLimiter arg now =
     (case arg of
        Null \<Rightarrow> Inl TypeError
      | Object options \<Rightarrow> Inr (RateLimiter_constructor options now)
      | _ \<Rightarrow> Inr (RateLimiter_constructor
                    \<lparr> opt_requestsPerMinute = None, opt_burstLimit = None \<rparr> now))"

text \<open>
  The local constant \<^verbatim>\<open>tokensToAdd\<close> of \<^verbatim>\<open>refillTokens\<close>: the quotient
  is rounded to a double, then the product is, then \<^verbatim>\<open>Math.floor\<close> is taken.
  With integers below \<open>2^53\<close> neither can overflow.
\<close>

definition tokensToAdd :: "int \<Rightarrow> 'a limiter_scheme \<Rightarrow> int" where
  "tokensToAdd now s =
     \<lfloor>round_double (round_double (of_int (now - lastRefill s) / of_int windowSizeMs)
                     * of_int (burstLimit s))\<rfloor>"

definition refillTokens :: "int \<Rightarrow> 'a limiter_scheme \<Rightarrow> 'a limiter_scheme" where
  "refillTokens now s =
     (if tokensToAdd now s > 0
      then s\<lparr> tokens := min (burstLimit s) (tokens s + tokensToAdd now s),
              lastRefill := now \<rparr>
      else s)"

definition cleanOldRequests :: "int \<Rightarrow> 'a limiter_scheme \<Rightarrow> 'a limiter_scheme" where
  "cleanOldRequests now s =
     (let cutoff = now - windowSizeMs
      in s\<lparr> requests := filter (\<lambda>timestamp. timestamp > cutoff) (requests s) \<rparr>)"

definition canMakeRequest :: "int \<Rightarrow> 'a limiter_scheme \<Rightarrow> bool" where
  "canMakeRequest now s =
     (if tokens s \<le> 0 then False
      else if int (length (requests s)) \<ge> requestsPerMinute s then False
      else True)"

definition consumeToken :: "'a limiter_scheme \<Rightarrow> 'a limiter_scheme" where
  "consumeToken s = s\<lparr> tokens := max 0 (tokens s - 1) \<rparr>"

text \<open>
  The two local constants of \<^verbatim>\<open>calculateWaitTime\<close>. \<^verbatim>\<open>this.requests[0]\<close>
  of an empty array is \<^verbatim>\<open>undefined\<close>, and the sum with it \<^verbatim>\<open>NaN\<close>.
\<close>

definition timeUntilNextToken :: "'a limiter_scheme \<Rightarrow> jsnum" where
  "timeUntilNextToken s =
     (if tokens s \<le> 0 then js_div (Finite (of_int windowSizeMs)) (of_int (burstLimit s))
      else Finite 0)"

definition timeUntilWindowSlot :: "int \<Rightarrow> 'a limiter_scheme \<Rightarrow> jsnum" where
  "timeUntilWindowSlot now s =
     (if int (length (requests s)) \<ge> requestsPerMinute s
      then (case requests s of
              [] \<Rightarrow> NonFinite
            | oldest # _ \<Rightarrow> Finite (of_int (oldest + windowSizeMs - now)))
      else Finite 0)"

definition calculateWaitTime :: "int \<Rightarrow> 'a limiter_scheme \<Rightarrow> jsnum" where
  "calculateWaitTime now s =
     js_max (js_max (timeUntilNextToken s) (timeUntilWindowSlot now s)) (Finite 100)"

definition updateAverageWaitTime :: "jsnum \<Rightarrow> 'a limiter_scheme \<Rightarrow> 'a limiter_scheme" where
  "updateAverageWaitTime waitTime s =
     (let totalWaits = (of_nat (rejectedRequests (rl_stats s)) :: rat)
      in s\<lparr> rl_stats := (rl_stats s)
             \<lparr> averageWaitTime :=
                 js_div (js_add (js_mul (averageWaitTime (rl_stats s)) (Finite (totalWaits - 1)))
                                waitTime)
                        totalWaits \<rparr> \<rparr>)"

text \<open>
  One admission attempt of \<^verbatim>\<open>waitForToken\<close>, at clock \<open>now\<close>: either the
  promise resolves at once, or a timer of \<open>waitTime\<close> milliseconds is set, after which
  \<^verbatim>\<open>waitForToken\<close> is entered again.
\<close>

datatype attempt = Admitted | Retry jsnum

definition waitForToken :: "int \<Rightarrow> 'a limiter_scheme \<Rightarrow> attempt \<times> 'a limiter_scheme" where
  "waitForToken now s =
     (let s1 = refillTokens now s;
          s2 = cleanOldRequests now s1
      in if canMakeRequest now s2
         then (let s3 = consumeToken s2;
                   s4 = s3\<lparr> requests := requests s3 @ [now] \<rparr>
               in (Admitted,
                   s4\<lparr> rl_stats := (rl_stats s4)
                         \<lparr> totalRequests := totalRequests (rl_stats s4) + 1 \<rparr> \<rparr>))
         else (let waitTime = calculateWaitTime now s2;
                   s3 = s2\<lparr> rl_stats := (rl_stats s2)
                              \<lparr> rejectedRequests := rejectedRequests (rl_stats s2) + 1 \<rparr> \<rparr>
               in (Retry waitTime, updateAverageWaitTime waitTime s3)))"



section \<open>APIRateLimiter\<close>




text \<open>
  A header value is a JavaScript string, a sequence of UTF-16 code units; \<open>utf16\<close>
  gives the code units of a string of ASCII characters.
\<close>

type_synonym jsstring = "nat list"

definition utf16 :: "string \<Rightarrow> jsstring" where
  "utf16 s = map of_char s"


text \<open>
  \<^verbatim>\<open>parseInt(string)\<close> with no radix: leading white space and line terminators
  are dropped, then an optional sign, then \<^verbatim>\<open>0x\<close> or \<^verbatim>\<open>0X\<close> selects
  radix 16; the longest prefix of digits is read, and there being none the result is
  \<^verbatim>\<open>NaN\<close> (\<open>None\<close>). The integer read becomes a number in \<open>to_jsnum\<close>.
\<close>

definition is_space :: "nat \<Rightarrow> bool" where
  "is_space u =
     (u \<in> set [0x0009, 0x000A, 0x000B, 0x000C, 0x000D, 0x0020, 0x00A0, 0x1680,
                0x2000, 0x2001, 0x2002, 0x2003, 0x2004, 0x2005, 0x2006, 0x2007, 0x2008,
                0x2009, 0x200A, 0x2028, 0x2029, 0x202F, 0x205F, 0x3000, 0xFEFF])"

definition digit_of :: "nat \<Rightarrow> nat option" where
  "digit_of u =
     (if 48 \<le> u \<and> u \<le> 57 then Some (u - 48)
      else if 97 \<le> u \<and> u \<le> 122 then Some (u - 87)
      else if 65 \<le> u \<and> u \<le> 90 then Some (u - 55)
      else None)"

definition is_digit :: "nat \<Rightarrow> nat \<Rightarrow> bool" where
  "is_digit radix u = (case digit_of u of None \<Rightarrow> False | Some d \<Rightarrow> d < radix)"

definition digits_value :: "nat \<Rightarrow> jsstring \<Rightarrow> nat" where
  "digits_value radix z =
     foldl (\<lambda>acc u. acc * radix + (case digit_of u of None \<Rightarrow> 0 | Some d \<Rightarrow> d)) 0 z"

definition parseInt :: "jsstring \<Rightarrow> int option" where
  "parseInt str =
     (let s = dropWhile is_space str;
          sign = (if take 1 s = utf16 ''-'' then - 1 else 1 :: int);
          s1 = (if take 1 s = utf16 ''-'' \<or> take 1 s = utf16 ''+'' then drop 1 s else s);
          hex = (take 2 s1 = utf16 ''0x'' \<or> take 2 s1 = utf16 ''0X'');
          radix = (if hex then 16 else 10);
          s2 = (if hex then drop 2 s1 else s1);
          z = takeWhile (is_digit radix) s2
      in if z = [] then None else Some (sign * int (digits_value radix z)))"








section \<open>GlobalRateLimiter\<close>

text \<open>
  Limiters are objects, and two lookups may or may not return the same one: the
  registry holds references into a store of limiter objects. A reference is an index
  of the store, and \<^verbatim>\<open>new RateLimiter(options)\<close> appends the new object.
\<close>

type_synonym ref = nat

record global_limiter =
  limiters :: "(key \<times> ref) list"
  store :: "limiter list"

definition GlobalRateLimiter_constructor :: global_limiter where
  "GlobalRateLimiter_constructor = \<lparr> limiters = [], store = [] \<rparr>"

text \<open>
  \<^verbatim>\<open>getLimiter(key, options)\<close>; \<open>now\<close> is the clock the constructor reads if
  a limiter is made. The result is what \<^verbatim>\<open>this.limiters.get(key)\<close> returns.
\<close>

definition getLimiter ::
  "key \<Rightarrow> limiter_options \<Rightarrow> int \<Rightarrow> global_limiter \<Rightarrow> ref option \<times> global_limiter" where
  "getLimiter k options now g =
     (let g1 = (if map_of (limiters g) k = None
                then g\<lparr> store := store g @ [RateLimiter_constructor options now],
                        limiters := AList.update k (length (store g)) (limiters g) \<rparr>
                else g)
      in (map_of (limiters g1) k, g1))"

text \<open>A run of lookups, collecting the references returned.\<close>

fun getLimiter_all ::
  "(key \<times> limiter_options \<times> int) list \<Rightarrow> global_limiter \<Rightarrow> ref option list \<times> global_limiter" where
  "getLimiter_all [] g = ([], g)"
| "getLimiter_all ((k, options, now) # calls) g =
     (let (r, g1) = getLimiter k options now g;
          (rs, g2) = getLimiter_all calls g1
      in (r # rs, g2))"

section \<open>Auxiliary definitions for the statements\<close>

text \<open>
  What the specification says \<^verbatim>\<open>lastRefill\<close> becomes on a refill: advanced by
  the time the added tokens took to accrue, one token every
  \<open>windowSizeMs / burstLimit\<close> milliseconds. It is compared with the field the code
  writes.
\<close>

definition refill_lastRefill_spec :: "int \<Rightarrow> 'a limiter_scheme \<Rightarrow> rat" where
  "refill_lastRefill_spec now s =
     of_int (lastRefill s)
       + of_int (tokensToAdd now s) * (of_int windowSizeMs / of_int (burstLimit s))"

text \<open>
  The two times that the claim about the wait names, read as times: until the bucket
  gains a token, one accruing every \<open>windowSizeMs / burstLimit\<close> milliseconds from
  \<^verbatim>\<open>lastRefill\<close>, and until the oldest timestamp leaves the window. They are
  compared with what \<^verbatim>\<open>calculateWaitTime\<close> computes.
\<close>

definition next_token_in :: "int \<Rightarrow> 'a limiter_scheme \<Rightarrow> rat" where
  "next_token_in now s =
     (if 0 < tokens s then 0
      else max 0 (of_int (lastRefill s) + of_int windowSizeMs / of_int (burstLimit s)
                    - of_int now))"

definition oldest_expires_in :: "int \<Rightarrow> 'a limiter_scheme \<Rightarrow> rat" where
  "oldest_expires_in now s =
     (case requests s of [] \<Rightarrow> 0 | oldest # _ \<Rightarrow> of_int (oldest + windowSizeMs - now))"

definition wait_as_claimed :: "int \<Rightarrow> 'a limiter_scheme \<Rightarrow> rat" where
  "wait_as_claimed now s = max (max (next_token_in now s) (oldest_expires_in now s)) 100"

text \<open>
  The registry as \<^verbatim>\<open>getLimiter\<close> alone builds it: the \<open>n\<close>-th key registered
  refers to the \<open>n\<close>-th object of the store.
\<close>

definition registry_inv :: "global_limiter \<Rightarrow> bool" where
  "registry_inv g \<longleftrightarrow>
     map snd (limiters g) = [0..<length (store g)] \<and> distinct (map fst (limiters g))"

text \<open>Concrete states, each reached from a constructor by the calls written.\<close>

definition cache_a :: "nat cache" where
  "cache_a = snd (Cache_set 0 0 ''a'' 7 None
                (Cache_constructor \<lparr> opt_maxSize = None, opt_ttl = None, opt_strategy = None \<rparr>))"

definition cache_ab :: "nat cache" where
  "cache_ab =
     snd (Cache_get 3 3 ''b''
       (snd (Cache_get 2 2 ''a''
         (snd (Cache_set 1 1 ''b'' 8 None
           (snd (Cache_set 0 0 ''a'' 7 None
             (Cache_constructor
                \<lparr> opt_maxSize = None, opt_ttl = None, opt_strategy = Some ''lfu'' \<rparr>))))))))"

definition drained :: limiter where
  "drained = snd (waitForToken 0
               (RateLimiter_constructor \<lparr> opt_requestsPerMinute = None, opt_burstLimit = Some 1 \<rparr> 0))"

definition window_full :: limiter where
  "window_full = snd (waitForToken 0
               (RateLimiter_constructor \<lparr> opt_requestsPerMinute = Some 1, opt_burstLimit = Some 2 \<rparr> 0))"


definition fresh50 :: limiter where
  "fresh50 = RateLimiter_constructor \<lparr> opt_requestsPerMinute = None, opt_burstLimit = Some 50 \<rparr> 0"

definition two_spent :: limiter where
  "two_spent =
     snd (waitForToken 0
       (snd (waitForToken 0
         (RateLimiter_constructor \<lparr> opt_requestsPerMinute = None, opt_burstLimit = Some 2 \<rparr> 0))))"







definition registry_a :: global_limiter where
  "registry_a = snd (getLimiter ''a'' \<lparr> opt_requestsPerMinute = Some 5, opt_burstLimit = None \<rparr> 1
                      GlobalRateLimiter_constructor)"

definition lookups_aab :: "(key \<times> limiter_options \<times> int) list" where
  "lookups_aab =
     [(''a'', \<lparr> opt_requestsPerMinute = Some 5, opt_burstLimit = None \<rparr>, 1),
      (''a'', \<lparr> opt_requestsPerMinute = Some 7, opt_burstLimit = None \<rparr>, 2),
      (''b'', \<lparr> opt_requestsPerMinute = Some 7, opt_burstLimit = None \<rparr>, 3)]"

section \<open>Lemmas about the containers and the loops\<close>

lemma map_of_delete_same: "map_of (AList.delete k al) k = None"
  by (simp add: AList.delete_conv')

lemma lfu_scan_zero: "lfu_scan al 0 key = key"
  by (induction al arbitrary: key) (auto simp: zero_enat_def[symmetric])

lemma lfu_scan_finds_zero:
  "(k, 0) \<in> set al \<Longrightarrow> lo \<noteq> 0 \<Longrightarrow> \<exists>k'. lfu_scan al lo key = Some k' \<and> (k', 0) \<in> set al"
proof (induction al arbitrary: lo key)
  case Nil
  then show ?case by simp
next
  case (Cons p al)
  obtain k1 n1 where p: "p = (k1, n1)" by (cases p)
  show ?case
  proof (cases "n1 = 0")
    case True
    with Cons.prems p have "lfu_scan (p # al) lo key = Some k1"
      by (simp add: lfu_scan_zero zero_enat_def[symmetric] zero_less_iff_neq_zero)
    with True p show ?thesis by auto
  next
    case False
    with Cons.prems p have mem: "(k, 0) \<in> set al" by auto
    have "enat n1 \<noteq> 0" using False by (simp add: zero_enat_def)
    from Cons.IH[OF mem this] Cons.IH[OF mem Cons.prems(2)] p
    show ?thesis by (cases "enat n1 < lo") auto
  qed
qed

lemma length_update:
  "length (AList.update k v al) = (if map_of al k = None then Suc (length al) else length al)"
  by (induction al) auto

lemma update_mem: "(k, v) \<in> set (AList.update k v al)"
  by (induction al) auto

lemma update_set_subset: "set (AList.update k v al) \<subseteq> insert (k, v) (set al)"
  by (induction al) auto

lemma update_fresh: "map_of al k = None \<Longrightarrow> AList.update k v al = al @ [(k, v)]"
  by (induction al) (auto split: if_splits)

lemma getLimiter_new:
  "map_of (limiters g) k = None \<Longrightarrow>
   getLimiter k options now g =
     (Some (length (store g)),
      g\<lparr> store := store g @ [RateLimiter_constructor options now],
         limiters := limiters g @ [(k, length (store g))] \<rparr>)"
proof -
  assume new: "map_of (limiters g) k = None"
  then have "getLimiter k options now g =
     (Some (length (store g)),
      g\<lparr> store := store g @ [RateLimiter_constructor options now],
         limiters := AList.update k (length (store g)) (limiters g) \<rparr>)"
    by (simp add: getLimiter_def AList.update_conv')
  then show ?thesis by (simp only: update_fresh[OF new])
qed

lemma getLimiter_old:
  "map_of (limiters g) k = Some r \<Longrightarrow> getLimiter k options now g = (Some r, g)"
  by (simp add: getLimiter_def)

lemma getLimiter_inv:
  "registry_inv g \<Longrightarrow> registry_inv (snd (getLimiter k options now g))"
proof (cases "map_of (limiters g) k")
  case None
  assume "registry_inv g"
  moreover from None have "k \<notin> fst ` set (limiters g)"
    by (simp add: map_of_eq_None_iff)
  ultimately show ?thesis
    by (simp add: getLimiter_new[OF None] registry_inv_def)
next
  case (Some r)
  assume "registry_inv g"
  then show ?thesis by (simp add: getLimiter_old[OF Some])
qed

lemma getLimiter_keys:
  "fst ` set (limiters (snd (getLimiter k options now g))) = insert k (fst ` set (limiters g))"
proof (cases "map_of (limiters g) k")
  case None
  then show ?thesis by (simp add: getLimiter_new)
next
  case (Some r)
  then have "k \<in> fst ` set (limiters g)"
    by (metis domI dom_map_of_conv_image_fst)
  with Some show ?thesis by (auto simp: getLimiter_old)
qed

lemma getLimiter_preserves:
  "map_of (limiters g) k' = Some r \<Longrightarrow>
   map_of (limiters (snd (getLimiter k options now g))) k' = Some r"
  by (cases "map_of (limiters g) k") (auto simp: getLimiter_new getLimiter_old map_add_Some_iff)

lemma getLimiter_store_prefix:
  "\<exists>ys. store (snd (getLimiter k options now g)) = store g @ ys"
  by (cases "map_of (limiters g) k") (auto simp: getLimiter_new getLimiter_old)

lemma getLimiter_result:
  "fst (getLimiter k options now g) = map_of (limiters (snd (getLimiter k options now g))) k"
  by (simp add: getLimiter_def Let_def)

lemma getLimiter_all_Cons:
  "getLimiter_all ((k, options, now) # calls) g =
     (fst (getLimiter k options now g) # fst (getLimiter_all calls (snd (getLimiter k options now g))),
      snd (getLimiter_all calls (snd (getLimiter k options now g))))"
  by (simp add: Let_def split: prod.splits)

declare getLimiter_all.simps(2) [simp del]

lemma run_inv: "registry_inv g \<Longrightarrow> registry_inv (snd (getLimiter_all calls g))"
proof (induction calls arbitrary: g)
  case Nil
  then show ?case by simp
next
  case (Cons c calls)
  obtain k options now where c: "c = (k, options, now)" by (cases c)
  from Cons.IH[OF getLimiter_inv[OF Cons.prems]] show ?case
    by (simp add: c getLimiter_all_Cons)
qed

lemma run_keys:
  "fst ` set (limiters (snd (getLimiter_all calls g))) = fst ` set (limiters g) \<union> fst ` set calls"
proof (induction calls arbitrary: g)
  case Nil
  then show ?case by simp
next
  case (Cons c calls)
  obtain k options now where c: "c = (k, options, now)" by (cases c)
  show ?case
    by (simp add: c getLimiter_all_Cons Cons.IH getLimiter_keys)
qed

lemma run_preserves:
  "map_of (limiters g) k = Some r \<Longrightarrow> map_of (limiters (snd (getLimiter_all calls g))) k = Some r"
proof (induction calls arbitrary: g)
  case Nil
  then show ?case by simp
next
  case (Cons c calls)
  obtain k' options now where c: "c = (k', options, now)" by (cases c)
  from Cons.IH[OF getLimiter_preserves[OF Cons.prems]] show ?case
    by (simp add: c getLimiter_all_Cons)
qed

lemma run_store_prefix: "\<exists>ys. store (snd (getLimiter_all calls g)) = store g @ ys"
proof (induction calls arbitrary: g)
  case Nil
  then show ?case by simp
next
  case (Cons c calls)
  obtain k options now where c: "c = (k, options, now)" by (cases c)
  from getLimiter_store_prefix[of k options now g] Cons.IH[of "snd (getLimiter k options now g)"]
  show ?case by (auto simp: c getLimiter_all_Cons)
qed

lemma run_length: "length (fst (getLimiter_all calls g)) = length calls"
proof (induction calls arbitrary: g)
  case Nil
  then show ?case by simp
next
  case (Cons c calls)
  obtain k options now where c: "c = (k, options, now)" by (cases c)
  show ?case by (simp add: c getLimiter_all_Cons Cons.IH)
qed

lemma run_results:
  "i < length calls \<Longrightarrow>
   fst (getLimiter_all calls g) ! i = map_of (limiters (snd (getLimiter_all calls g))) (fst (calls ! i))"
proof (induction calls arbitrary: g i)
  case Nil
  then show ?case by simp
next
  case (Cons c calls)
  obtain k options now where c: "c = (k, options, now)" by (cases c)
  let ?g1 = "snd (getLimiter k options now g)"
  show ?case
  proof (cases i)
    case 0
    have "map_of (limiters ?g1) k \<noteq> None"
      by (cases "map_of (limiters g) k") (auto simp: getLimiter_new getLimiter_old)
    then obtain r where r: "map_of (limiters ?g1) k = Some r" by auto
    from run_preserves[OF r, of calls] r 0 show ?thesis
      by (simp add: c getLimiter_all_Cons getLimiter_result)
  next
    case (Suc i')
    with Cons.prems have "i' < length calls" by simp
    from Cons.IH[OF this, of ?g1] Suc show ?thesis
      by (simp add: c getLimiter_all_Cons)
  qed
qed

lemma run_first_config:
  "i < length calls \<Longrightarrow> map_of (limiters g) (fst (calls ! i)) = None \<Longrightarrow>
   \<forall>j<i. fst (calls ! j) \<noteq> fst (calls ! i) \<Longrightarrow>
   \<exists>r. fst (getLimiter_all calls g) ! i = Some r
       \<and> store (snd (getLimiter_all calls g)) ! r
           = RateLimiter_constructor (fst (snd (calls ! i))) (snd (snd (calls ! i)))"
proof (induction calls arbitrary: g i)
  case Nil
  then show ?case by simp
next
  case (Cons c calls)
  obtain k options now where c: "c = (k, options, now)" by (cases c)
  let ?g1 = "snd (getLimiter k options now g)"
  show ?case
  proof (cases i)
    case 0
    with Cons.prems c have new: "map_of (limiters g) k = None" by simp
    obtain ys where "store (snd (getLimiter_all calls ?g1)) = store ?g1 @ ys"
      using run_store_prefix by blast
    then have "store (snd (getLimiter_all calls ?g1)) ! length (store g)
                 = RateLimiter_constructor options now"
      by (simp add: getLimiter_new[OF new] nth_append)
    with 0 show ?thesis
      by (simp add: c getLimiter_all_Cons getLimiter_new[OF new])
  next
    case (Suc i')
    with Cons.prems have i': "i' < length calls" by simp
    from Cons.prems(3) Suc have ne: "k \<noteq> fst (calls ! i')"
      using c by auto
    from Cons.prems(2) Suc have "fst (calls ! i') \<notin> fst ` set (limiters g)"
      by (simp add: map_of_eq_None_iff)
    with ne have fresh: "map_of (limiters ?g1) (fst (calls ! i')) = None"
      by (simp add: map_of_eq_None_iff getLimiter_keys)
    from Cons.prems(3) Suc have "\<forall>j<i'. fst (calls ! j) \<noteq> fst (calls ! i')"
      by auto
    from Cons.IH[OF i' fresh this] Suc show ?thesis
      by (simp add: c getLimiter_all_Cons)
  qed
qed

lemma inv_inj:
  assumes "registry_inv g" "map_of (limiters g) k1 = Some r" "map_of (limiters g) k2 = Some r"
  shows "k1 = k2"
proof -
  from assms(1) have d: "distinct (map snd (limiters g))"
    by (simp add: registry_inv_def)
  from assms(2,3) have "(k1, r) \<in> set (limiters g)" "(k2, r) \<in> set (limiters g)"
    by (auto dest: map_of_SomeD)
  with d show ?thesis
    by (metis (no_types, lifting) distinct_map inj_onD prod.inject snd_conv)
  qed

lemma inv_bound:
  assumes "registry_inv g" "map_of (limiters g) k = Some r"
  shows "r < length (store g)"
proof -
  from assms(2) have "r \<in> set (map snd (limiters g))"
    by (force dest: map_of_SomeD)
  with assms(1) show ?thesis by (simp add: registry_inv_def)
qed

lemma inv_count:
  assumes "registry_inv g"
  shows "length (store g) = card (fst ` set (limiters g))"
proof -
  from assms have "length (map snd (limiters g)) = length [0..<length (store g)]"
    by (simp only: registry_inv_def)
  then have "length (store g) = length (map fst (limiters g))" by simp
  also from assms have "\<dots> = card (set (map fst (limiters g)))"
    by (simp only: registry_inv_def distinct_card)
  finally show ?thesis by simp
qed

text \<open>Rounding: the exponent that \<open>ilog2\<close> finds, and integers, which are exact.\<close>

lemma round_double_zero [simp]: "round_double 0 = 0"
  by (simp add: round_double_def)

lemma round_even_of_int: "round_even (of_int k) = k"
  by (simp add: round_even_def)

lemma ilog2_bounds:
  assumes "0 < x"
  shows "pow2 (ilog2 x) \<le> x \<and> x < pow2 (ilog2 x + 1)"
proof (cases "1 \<le> x")
  case True
  define n where "n = \<lfloor>x\<rfloor>"
  from True have n: "0 < n" by (simp add: n_def)
  from bitlen_bounds[OF n] have lo: "2 ^ nat (bitlen n - 1) \<le> n" and hi: "n < 2 ^ nat (bitlen n)"
    by simp_all
  from n have b: "1 \<le> bitlen n"
    using bitlen_eq_zero_iff[of n] bitlen_nonneg[of n] by linarith
  have "(of_int (2 ^ nat (bitlen n - 1)) :: rat) \<le> of_int n"
    using lo by (simp only: of_int_le_iff)
  also have "\<dots> \<le> x" by (simp add: n_def)
  finally have 1: "pow2 (bitlen n - 1) \<le> x"
    using b by (simp add: pow2_def)
  from hi have "n + 1 \<le> 2 ^ nat (bitlen n)" by simp
  then have "(of_int (n + 1) :: rat) \<le> of_int (2 ^ nat (bitlen n))"
    by (simp only: of_int_le_iff)
  moreover have "x < of_int (n + 1)"
    using floor_correct[of x] by (simp add: n_def)
  ultimately have 2: "x < pow2 (bitlen n)"
    using b by (simp add: pow2_def)
  from 1 2 True show ?thesis by (simp add: ilog2_def n_def)
next
  case False
  define y where "y = 1 / x"
  define m where "m = \<lceil>y\<rceil> - 1"
  from False assms have y1: "1 < y" by (simp add: y_def)
  then have m: "0 < m" by (simp add: m_def less_ceiling_iff)
  have my: "of_int m < y" by (simp add: m_def) linarith
  have ym: "y \<le> of_int (m + 1)" by (simp add: m_def)
  from bitlen_bounds[OF m] have lo: "2 ^ nat (bitlen m - 1) \<le> m" and hi: "m < 2 ^ nat (bitlen m)"
    by simp_all
  from m have b: "1 \<le> bitlen m"
    using bitlen_eq_zero_iff[of m] bitlen_nonneg[of m] by linarith
  from hi have "m + 1 \<le> 2 ^ nat (bitlen m)" by simp
  then have "(of_int (m + 1) :: rat) \<le> of_int (2 ^ nat (bitlen m))"
    by (simp only: of_int_le_iff)
  with ym have yhi: "y \<le> 2 ^ nat (bitlen m)" by simp
  have "(2 ^ nat (bitlen m - 1) :: rat) \<le> of_int m"
  proof -
    from lo have "(of_int (2 ^ nat (bitlen m - 1)) :: rat) \<le> of_int m"
      by (rule of_int_le_iff[THEN iffD2])
    then show ?thesis by simp
  qed
  with my have ylo: "2 ^ nat (bitlen m - 1) < y" by linarith
  have x: "x = 1 / y" by (simp add: y_def)
  from yhi y1 have 1: "1 / 2 ^ nat (bitlen m) \<le> x"
    unfolding x by (simp add: frac_le)
  from ylo have 2: "x < 1 / 2 ^ nat (bitlen m - 1)"
    unfolding x by (simp add: frac_less2)
  have p1: "pow2 (- bitlen m) = 1 / 2 ^ nat (bitlen m)"
    using b by (simp add: pow2_def)
  have p2: "pow2 (- bitlen m + 1) = 1 / 2 ^ nat (bitlen m - 1)"
    using b by (cases "bitlen m = 1") (simp_all add: pow2_def)
  from 1 2 p1 p2 False show ?thesis
    by (simp add: ilog2_def y_def m_def)
qed

lemma round_double_of_int:
  assumes "\<bar>i\<bar> < 2 ^ 53"
  shows "round_double (of_int i) = of_int i"
proof (cases "i = 0")
  case True
  then show ?thesis by simp
next
  case False
  define n where "n = \<bar>i\<bar>"
  from False have n: "0 < n" by (simp add: n_def)
  from assms have n53: "n < 2 ^ 53" by (simp add: n_def)
  from n have b1: "1 \<le> bitlen n"
    using bitlen_eq_zero_iff[of n] bitlen_nonneg[of n] by linarith
  from n53 have b53: "bitlen n \<le> 53"
    using bitlen_le_iff_power[of n 53] by simp
  from n have one: "(1 :: rat) \<le> of_int n" by simp
  have il: "ilog2 (of_int n) = bitlen n - 1"
    using one by (simp add: ilog2_def)
  define k where "k = nat (53 - bitlen n)"
  have e: "max (ilog2 (of_int n) - 52) (- 1074) = - int k"
    using b1 b53 by (simp add: il k_def)
  have p: "pow2 (- int k) = 1 / 2 ^ k"
    by (cases "k = 0") (simp_all add: pow2_def)
  have re: "round_even (of_int n * 2 ^ k) = n * 2 ^ k"
    using round_even_of_int[of "n * 2 ^ k"] by simp
  have abs: "\<bar>(of_int i :: rat)\<bar> = of_int n" by (simp add: n_def)
  have "round_double (of_int i) = sgn (of_int i) * of_int n"
    using False by (simp add: round_double_def Let_def abs e p re)
  also have "\<dots> = of_int i"
    unfolding abs[symmetric] by (rule sgn_mult_abs)
  finally show ?thesis .
qed

lemma double_of_int:
  assumes "\<bar>i\<bar> < 2 ^ 53"
  shows "double_of (of_int i) = Finite (of_int i)"
proof -
  have "(2 :: int) ^ 53 \<le> 2 ^ 1024" by (rule power_increasing) simp_all
  with assms have "\<bar>i\<bar> < 2 ^ 1024" by linarith
  then have "(of_int \<bar>i\<bar> :: rat) < of_int (2 ^ 1024)"
    by (rule of_int_less_iff[THEN iffD2])
  then have "\<bar>(of_int i :: rat)\<bar> < 2 ^ 1024" by simp
  then show ?thesis
    by (simp add: double_of_def round_double_of_int[OF assms])
qed





lemma double_of_30000: "double_of 30000 = Finite 30000"
  using double_of_int[of 30000] by simp

lemma double_of_60000: "double_of 60000 = Finite 60000"
  using double_of_int[of 60000] by simp




lemma parseInt_nbsp: "parseInt (0xA0 # utf16 ''5'') = Some 5"
  by (simp add: parseInt_def utf16_def is_space_def is_digit_def digit_of_def digits_value_def
      Let_def)



text \<open>The concrete states, written out, and the steps taken from them.\<close>

lemma cache_a_eq:
  "cache_a = \<lparr> maxSize = 1000, ttl = 300, strategy = ''lru'',
       data = [(''a'', \<lparr> item_value = 7, expiresAt = 300000, createdAt = 0 \<rparr>)],
       accessTimes = [(''a'', 0)], accessCounts = [(''a'', 0)], insertionOrder = [''a''],
       stats = \<lparr> hits = 0, misses = 0, sets = 1, deletes = 0, evictions = 0 \<rparr> \<rparr>"
  by (simp add: cache_a_def Cache_constructor_def Cache_set_def or_num_def or_str_def Let_def)

lemma cache_ab_eq:
  "cache_ab = \<lparr> maxSize = 1000, ttl = 300, strategy = ''lfu'',
       data = [(''a'', \<lparr> item_value = 7, expiresAt = 300000, createdAt = 0 \<rparr>),
               (''b'', \<lparr> item_value = 8, expiresAt = 300001, createdAt = 1 \<rparr>)],
       accessTimes = [(''a'', 2), (''b'', 3)], accessCounts = [(''a'', 1), (''b'', 1)],
       insertionOrder = [''a'', ''b''],
       stats = \<lparr> hits = 2, misses = 0, sets = 2, deletes = 0, evictions = 0 \<rparr> \<rparr>"
  by (simp add: cache_ab_def Cache_constructor_def Cache_set_def Cache_get_def or_num_def
      or_str_def Let_def)

lemma registry_a_eq:
  "registry_a = \<lparr> limiters = [(''a'', 0)],
     store = [RateLimiter_constructor \<lparr> opt_requestsPerMinute = Some 5, opt_burstLimit = None \<rparr> 1] \<rparr>"
  by (simp add: registry_a_def getLimiter_def GlobalRateLimiter_constructor_def)

lemma tokensToAdd_no_elapsed: "now = lastRefill s \<Longrightarrow> tokensToAdd now s = 0"
  by (simp add: tokensToAdd_def)

lemmas limiter_defs = waitForToken_def refillTokens_def cleanOldRequests_def canMakeRequest_def
  consumeToken_def calculateWaitTime_def updateAverageWaitTime_def timeUntilNextToken_def
  timeUntilWindowSlot_def

lemma drained_eq: "drained = \<lparr> requestsPerMinute = 60, burstLimit = 1, tokens = 0, lastRefill = 0,
     requests = [0],
     rl_stats = \<lparr> totalRequests = 1, rejectedRequests = 0, averageWaitTime = Finite 0 \<rparr> \<rparr>"
  by (simp add: drained_def RateLimiter_constructor_def or_num_def limiter_defs
      tokensToAdd_no_elapsed windowSizeMs_def Let_def)

lemma window_full_eq:
  "window_full = \<lparr> requestsPerMinute = 1, burstLimit = 2, tokens = 1, lastRefill = 0,
     requests = [0],
     rl_stats = \<lparr> totalRequests = 1, rejectedRequests = 0, averageWaitTime = Finite 0 \<rparr> \<rparr>"
  by (simp add: window_full_def RateLimiter_constructor_def or_num_def limiter_defs
      tokensToAdd_no_elapsed windowSizeMs_def Let_def)

lemma two_spent_eq:
  "two_spent = \<lparr> requestsPerMinute = 60, burstLimit = 2, tokens = 0, lastRefill = 0,
     requests = [0, 0],
     rl_stats = \<lparr> totalRequests = 2, rejectedRequests = 0, averageWaitTime = Finite 0 \<rparr> \<rparr>"
  by (simp add: two_spent_def RateLimiter_constructor_def or_num_def limiter_defs
      tokensToAdd_no_elapsed windowSizeMs_def Let_def)

lemma fresh50_eq:
  "fresh50 = \<lparr> requestsPerMinute = 60, burstLimit = 50, tokens = 50, lastRefill = 0,
     requests = [],
     rl_stats = \<lparr> totalRequests = 0, rejectedRequests = 0, averageWaitTime = Finite 0 \<rparr> \<rparr>"
  by (simp add: fresh50_def RateLimiter_constructor_def or_num_def)

lemma tokens_drained_90000: "tokensToAdd 90000 drained = 1"
  apply (simp add: tokensToAdd_def drained_eq windowSizeMs_def)
  apply code_simp
  done

lemma tokens_drained_59999: "tokensToAdd 59999 drained = 0"
  apply (simp add: tokensToAdd_def drained_eq windowSizeMs_def)
  apply code_simp
  done

lemma tokens_fresh50_34800: "tokensToAdd 34800 fresh50 = 28"
  apply (simp add: tokensToAdd_def fresh50_eq windowSizeMs_def)
  apply code_simp
  done

lemma tokens_window_full_1000: "tokensToAdd 1000 window_full = 0"
  apply (simp add: tokensToAdd_def window_full_eq windowSizeMs_def)
  apply code_simp
  done

lemma tokens_window_full_60001: "tokensToAdd 60001 window_full = 2"
  apply (simp add: tokensToAdd_def window_full_eq windowSizeMs_def)
  apply code_simp
  done

lemma tokens_two_spent_1: "tokensToAdd 1 two_spent = 0"
  apply (simp add: tokensToAdd_def two_spent_eq windowSizeMs_def)
  apply code_simp
  done























section \<open>Cache: the capacity bound\<close>

text \<open>
  C1. The claim: after every \<^verbatim>\<open>set\<close> on a cache built with \<open>maxSize > 0\<close>,
  \<open>size() \<le> maxSize\<close>. The code breaks it: \<^verbatim>\<open>findLRUKey\<close> starts from
  \<open>oldestTime = Date.now()\<close> and compares with \<open><\<close>, so it finds no key when every
  entry was last accessed in the current millisecond; \<^verbatim>\<open>evict\<close> then deletes
  nothing and \<^verbatim>\<open>set\<close> inserts all the same. Two \<^verbatim>\<open>set\<close> calls in one
  millisecond on an \<^verbatim>\<open>lru\<close> cache of capacity 1 leave two entries.
\<close>

theorem set_exceeds_maxSize_lru_same_ms:
  "(let c0 = Cache_constructor
               \<lparr> opt_maxSize = Some 1, opt_ttl = None, opt_strategy = Some ''lru'' \<rparr>;
        c2 = set_all [(5, 5, ''a'', 1::nat, None), (5, 5, ''b'', 2, None)] c0
    in maxSize c2 = 1 \<and> Cache_size c2 = 2 \<and> map fst (data c2) = [''a'', ''b'']
       \<and> evictions (stats c2) = 0)"
  by (simp add: Cache_constructor_def or_num_def or_str_def Cache_set_def evict_def
      findLRUKey_def Cache_size_def Let_def)

text \<open>
  The slip is the only way the bound is lost in \<^verbatim>\<open>set\<close>: the bound is kept
  whenever the eviction removes an entry, and under \<^verbatim>\<open>lru\<close> it does as soon
  as one entry was last accessed before the millisecond that \<^verbatim>\<open>findLRUKey\<close>
  reads (keys being non-empty strings present in \<^verbatim>\<open>data\<close>).
\<close>

lemma lru_scan_cases:
  "lru_scan al oldestTime oldestKey = oldestKey
   \<or> (\<exists>k t. lru_scan al oldestTime oldestKey = Some k \<and> (k, t) \<in> set al)"
proof (induction al arbitrary: oldestTime oldestKey)
  case Nil
  then show ?case by simp
next
  case (Cons p al)
  obtain k1 t1 where p: "p = (k1, t1)" by (cases p)
  from Cons.IH[of t1 "Some k1"] Cons.IH[of oldestTime oldestKey] p
  show ?case by (cases "t1 < oldestTime") auto
qed

lemma lru_scan_finds:
  "(k, t) \<in> set al \<Longrightarrow> t < oldestTime \<Longrightarrow>
   \<exists>k' t'. lru_scan al oldestTime oldestKey = Some k' \<and> (k', t') \<in> set al"
proof (induction al arbitrary: oldestTime oldestKey)
  case Nil
  then show ?case by simp
next
  case (Cons p al)
  obtain k1 t1 where p: "p = (k1, t1)" by (cases p)
  show ?case
  proof (cases "t1 < oldestTime")
    case True
    from lru_scan_cases[of al t1 "Some k1"] True p show ?thesis by auto
  next
    case False
    with Cons.prems p have "(k, t) \<in> set al" by auto
    from Cons.IH[OF this Cons.prems(2), of oldestKey] False p show ?thesis by auto
  qed
qed

lemma length_delete_less:
  "map_of al k \<noteq> None \<Longrightarrow> length (AList.delete k al) < length al"
proof (induction al)
  case Nil
  then show ?case by simp
next
  case (Cons p al)
  have "length (AList.delete k al) \<le> length al" by (rule AList.length_delete_le)
  with Cons show ?case by (auto simp: le_imp_less_Suc split: if_splits)
qed

lemma evict_lru_removes:
  assumes "strategy c = ''lru''" "(k, t) \<in> set (accessTimes c)" "t < nowEvict"
    and "\<forall>(k', t') \<in> set (accessTimes c). k' \<noteq> [] \<and> map_of (data c) k' \<noteq> None"
  shows "Cache_size (evict nowEvict c) < Cache_size c"
proof -
  from lru_scan_finds[OF assms(2,3), of None]
  obtain k' t' where f: "findLRUKey nowEvict c = Some k'" "(k', t') \<in> set (accessTimes c)"
    by (auto simp: findLRUKey_def)
  with assms(4) have "k' \<noteq> []" "map_of (data c) k' \<noteq> None" by auto
  with f(1) assms(1) show ?thesis
    by (simp add: evict_def Cache_delete_def Cache_size_def length_delete_less)
qed

lemma set_keeps_bound_if_evicted:
  assumes "int (Cache_size c) \<le> maxSize c"
    and "maxSize c \<le> int (Cache_size c) \<Longrightarrow> map_of (data c) k = None \<Longrightarrow>
         Cache_size (evict nowEvict c) < Cache_size c"
  shows "int (Cache_size (snd (Cache_set now nowEvict k v customTtl c)))
           \<le> maxSize (snd (Cache_set now nowEvict k v customTtl c))"
proof -
  have m: "maxSize (evict nowEvict c) = maxSize c"
    by (simp add: evict_def Cache_delete_def Let_def split: option.splits)
  have d: "map_of (data c) k = None \<Longrightarrow> map_of (data (evict nowEvict c)) k = None"
    by (auto simp: evict_def Cache_delete_def Let_def AList.delete_conv' split: option.splits)
  show ?thesis
  proof (cases "maxSize c \<le> int (Cache_size c) \<and> map_of (data c) k = None")
    case True
    with assms(2) have "Cache_size (evict nowEvict c) < Cache_size c" by simp
    with assms(1) True d m show ?thesis
      by (simp add: Cache_set_def Cache_size_def Let_def length_update)
  next
    case False
    with assms(1) show ?thesis
      by (auto simp: Cache_set_def Cache_size_def Let_def length_update)
  qed
qed

section \<open>Cache: lazy expiry\<close>

text \<open>
  C3, as the claim states it, fails at the instant of expiry: an entry set at time 0
  with the default \<open>ttl\<close> has \<open>expiresAt = 300000\<close>, and \<^verbatim>\<open>get\<close> at
  \<open>now = 300000\<close>, where \<open>expiresAt \<le> now\<close>, returns its value.
\<close>

theorem get_hit_at_expiry_instant:
  "map (\<lambda>(k, it). (k, expiresAt it)) (data cache_a) = [(''a'', 300000)]
   \<and> fst (Cache_get 300000 300000 ''a'' cache_a) = Some 7"
  by (simp add: cache_a_eq Cache_get_def)

text \<open>
  C3, as the code has it. \<^verbatim>\<open>get\<close> tests \<^verbatim>\<open>Date.now() > item.expiresAt\<close>,
  so an entry is expired strictly after \<open>expiresAt\<close>. \<^verbatim>\<open>get(key)\<close> returns the
  miss value whenever the key is absent or \<open>expiresAt < now\<close>; in the second case
  the entry is deleted (data, access time and access count); and a value that is
  returned belongs to an entry with \<open>now \<le> expiresAt\<close>. Nothing is said of the
  converse: the code returns a stored \<^verbatim>\<open>null\<close> as it is, where the model
  marks every hit with \<open>Some\<close>.
\<close>

theorem get_miss_lazy_expiry:
  "(map_of (data c) k = None \<or> (\<exists>it. map_of (data c) k = Some it \<and> expiresAt it < now)
      \<longrightarrow> fst (Cache_get now now' k c) = None)
   \<and> (\<forall>it. map_of (data c) k = Some it \<and> expiresAt it < now \<longrightarrow>
         snd (Cache_get now now' k c) =
           (snd (Cache_delete k c))\<lparr> stats := (stats (snd (Cache_delete k c)))
               \<lparr> misses := misses (stats c) + 1 \<rparr> \<rparr>
         \<and> map_of (data (snd (Cache_get now now' k c))) k = None
         \<and> map_of (accessTimes (snd (Cache_get now now' k c))) k = None
         \<and> map_of (accessCounts (snd (Cache_get now now' k c))) k = None)
   \<and> (\<forall>v. fst (Cache_get now now' k c) = Some v \<longrightarrow>
         (\<exists>it. map_of (data c) k = Some it \<and> item_value it = v \<and> now \<le> expiresAt it))"
  by (auto simp: Cache_get_def Cache_delete_def Let_def map_of_delete_same split: option.splits)

theorem get_miss_lazy_expiry_witness:
  "(\<exists>it. map_of (data cache_a) ''a'' = Some it \<and> expiresAt it < 300001)
   \<and> fst (Cache_get 300001 300001 ''a'' cache_a) = None
   \<and> map_of (data (snd (Cache_get 300001 300001 ''a'' cache_a))) ''a'' = None
   \<and> map_of (data cache_a) ''b'' = None
   \<and> fst (Cache_get 5 5 ''b'' cache_a) = None
   \<and> fst (Cache_get 5 5 ''a'' cache_a) = Some 7
   \<and> (\<exists>it. map_of (data cache_a) ''a'' = Some it \<and> item_value it = 7 \<and> 5 \<le> expiresAt it)"
proof -
  define it0 :: "nat item" where "it0 = \<lparr> item_value = 7, expiresAt = 300000, createdAt = 0 \<rparr>"
  have h: "map_of (data cache_a) ''a'' = Some it0"
    and b: "map_of (data cache_a) ''b'' = None"
    and late: "expiresAt it0 < 300001"
    and hit: "fst (Cache_get 5 5 ''a'' cache_a) = Some 7"
    by (simp_all add: cache_a_eq it0_def Cache_get_def)
  from h late have e: "\<exists>it. map_of (data cache_a) ''a'' = Some it \<and> expiresAt it < 300001"
    by blast
  from get_miss_lazy_expiry[of cache_a "''a''" 300001 300001] h late
  have 1: "fst (Cache_get 300001 300001 ''a'' cache_a) = None"
    and 2: "map_of (data (snd (Cache_get 300001 300001 ''a'' cache_a))) ''a'' = None"
    by blast+
  from get_miss_lazy_expiry[of cache_a "''b''" 5 5] b
  have 3: "fst (Cache_get 5 5 ''b'' cache_a) = None" by blast
  from get_miss_lazy_expiry[of cache_a "''a''" 5 5] hit
  have 4: "\<exists>it. map_of (data cache_a) ''a'' = Some it \<and> item_value it = 7 \<and> 5 \<le> expiresAt it"
    by blast
  from e 1 2 b 3 hit 4 show ?thesis by blast
qed

section \<open>Cache: \<^verbatim>\<open>has\<close> leaves the eviction order alone\<close>

text \<open>
  C4. For a key whose entry is live, \<^verbatim>\<open>has(key)\<close> returns true and the cache is
  unchanged: access times and access counts are the same, and so are the keys that
  \<^verbatim>\<open>findLRUKey\<close> and \<^verbatim>\<open>findLFUKey\<close> would pick. For an expired key it
  returns false after the deletion that \<^verbatim>\<open>get\<close> performs (the two final states
  differ in the miss counter only).
\<close>

theorem has_keeps_metadata:
  "(\<forall>it. map_of (data c) k = Some it \<and> now \<le> expiresAt it \<longrightarrow>
        Cache_has now k c = (True, c)
        \<and> accessTimes (snd (Cache_has now k c)) = accessTimes c
        \<and> accessCounts (snd (Cache_has now k c)) = accessCounts c
        \<and> findLRUKey t (snd (Cache_has now k c)) = findLRUKey t c
        \<and> findLFUKey (snd (Cache_has now k c)) = findLFUKey c)
   \<and> (\<forall>it. map_of (data c) k = Some it \<and> expiresAt it < now \<longrightarrow>
        Cache_has now k c = (False, snd (Cache_delete k c))
        \<and> snd (Cache_get now now' k c) =
            (snd (Cache_has now k c))\<lparr> stats := (stats (snd (Cache_has now k c)))
               \<lparr> misses := misses (stats c) + 1 \<rparr> \<rparr>)"
  by (auto simp: Cache_has_def Cache_get_def Cache_delete_def Let_def split: option.splits)

theorem has_keeps_metadata_witness:
  "(\<exists>it. map_of (data cache_ab) ''a'' = Some it \<and> 5 \<le> expiresAt it \<and> expiresAt it < 300001)
   \<and> Cache_has 5 ''a'' cache_ab = (True, cache_ab)
   \<and> findLRUKey 5 (snd (Cache_has 5 ''a'' cache_ab)) = Some ''a''
   \<and> findLRUKey 5 cache_ab = Some ''a''
   \<and> findLFUKey (snd (Cache_has 5 ''a'' cache_ab)) = findLFUKey cache_ab
   \<and> fst (Cache_has 300001 ''a'' cache_ab) = False
   \<and> map fst (data (snd (Cache_has 300001 ''a'' cache_ab))) = [''b'']
   \<and> map fst (data (snd (Cache_get 300001 300001 ''a'' cache_ab))) = [''b'']"
proof -
  have h: "map_of (data cache_ab) ''a''
             = Some \<lparr> item_value = 7, expiresAt = 300000, createdAt = 0 \<rparr>"
    by (simp add: cache_ab_eq)
  from h have e: "\<exists>it. map_of (data cache_ab) ''a'' = Some it \<and> 5 \<le> expiresAt it
                     \<and> expiresAt it < 300001"
    by simp
  have lru: "findLRUKey 5 cache_ab = Some ''a''"
    by (simp add: cache_ab_eq findLRUKey_def)
  from has_keeps_metadata[of cache_ab "''a''" 5 5 5] h
  have live: "Cache_has 5 ''a'' cache_ab = (True, cache_ab)"
    "findLRUKey 5 (snd (Cache_has 5 ''a'' cache_ab)) = findLRUKey 5 cache_ab"
    "findLFUKey (snd (Cache_has 5 ''a'' cache_ab)) = findLFUKey cache_ab"
    by simp_all
  have del: "data (snd (Cache_delete ''a'' cache_ab))
               = [(''b'', \<lparr> item_value = 8, expiresAt = 300001, createdAt = 1 \<rparr>)]"
    by (simp add: cache_ab_eq Cache_delete_def AList.delete_eq)
  from has_keeps_metadata[of cache_ab "''a''" 300001 5 300001] h
  have dead: "Cache_has 300001 ''a'' cache_ab = (False, snd (Cache_delete ''a'' cache_ab))"
    "snd (Cache_get 300001 300001 ''a'' cache_ab) =
       (snd (Cache_has 300001 ''a'' cache_ab))\<lparr> stats := (stats (snd (Cache_has 300001 ''a'' cache_ab)))
               \<lparr> misses := misses (stats cache_ab) + 1 \<rparr> \<rparr>"
    by simp_all
  from e live lru dead del show ?thesis by simp
qed

section \<open>Cache: setting an existing key again\<close>

text \<open>
  C9. \<^verbatim>\<open>set\<close> on a key that is present puts its access count to 0 and its access
  time to \<open>now\<close>, whatever they were, without eviction. Under \<^verbatim>\<open>lfu\<close> the key
  then has the lowest count there is: \<^verbatim>\<open>findLFUKey\<close> picks a key of count 0,
  and picks this key when every other key has been read at least once.
\<close>

theorem reset_key_is_lfu_candidate:
  assumes "map_of (data c) k \<noteq> None"
  shows "let c' = snd (Cache_set now nowEvict k v customTtl c)
         in map_of (accessCounts c') k = Some 0
            \<and> map_of (accessTimes c') k = Some now
            \<and> Cache_size c' = Cache_size c
            \<and> (\<exists>k'. findLFUKey c' = Some k' \<and> (k', 0) \<in> set (accessCounts c'))
            \<and> ((\<forall>(k', n) \<in> set (accessCounts c). k' \<noteq> k \<longrightarrow> 0 < n) \<longrightarrow> findLFUKey c' = Some k)"
proof -
  define c' where "c' = snd (Cache_set now nowEvict k v customTtl c)"
  have ac: "accessCounts c' = AList.update k 0 (accessCounts c)"
    and at: "accessTimes c' = AList.update k now (accessTimes c)"
    and da: "data c' = AList.update k \<lparr> item_value = v, expiresAt = now + or_num customTtl (ttl c) * 1000, createdAt = now \<rparr> (data c)"
    using assms by (auto simp: c'_def Cache_set_def Let_def)
  have 1: "map_of (accessCounts c') k = Some 0" by (simp add: ac AList.update_conv')
  have 2: "map_of (accessTimes c') k = Some now" by (simp add: at AList.update_conv')
  have 3: "Cache_size c' = Cache_size c"
    using assms by (simp add: Cache_size_def da length_update)
  have "(k, 0) \<in> set (accessCounts c')" by (simp add: ac update_mem)
  from lfu_scan_finds_zero[OF this, of \<infinity> None]
  obtain k' where k': "findLFUKey c' = Some k'" "(k', 0) \<in> set (accessCounts c')"
    by (auto simp: findLFUKey_def)
  have 5: "findLFUKey c' = Some k" if h: "\<forall>(k', n) \<in> set (accessCounts c). k' \<noteq> k \<longrightarrow> 0 < n"
  proof -
    from k'(2) update_set_subset[of k 0 "accessCounts c"]
    have "(k', 0) = (k, 0) \<or> (k', 0) \<in> set (accessCounts c)" by (auto simp: ac)
    with h have "k' = k" by auto
    with k'(1) show ?thesis by simp
  qed
  from 1 2 3 k' 5 show ?thesis unfolding c'_def[symmetric] Let_def by blast
qed

theorem reset_key_is_lfu_candidate_witness:
  "map_of (data cache_ab) ''a'' \<noteq> None
   \<and> map_of (accessCounts cache_ab) ''a'' = Some 1
   \<and> map_of (accessCounts (snd (Cache_set 9 9 ''a'' 0 None cache_ab))) ''a'' = Some 0
   \<and> map_of (accessTimes (snd (Cache_set 9 9 ''a'' 0 None cache_ab))) ''a'' = Some 9
   \<and> findLFUKey (snd (Cache_set 9 9 ''a'' 0 None cache_ab)) = Some ''a''"
proof -
  have h: "map_of (data cache_ab) ''a'' \<noteq> None"
    and c: "map_of (accessCounts cache_ab) ''a'' = Some 1"
    and o: "\<forall>(k', n) \<in> set (accessCounts cache_ab). k' \<noteq> ''a'' \<longrightarrow> 0 < n"
    by (simp_all add: cache_ab_eq)
  from reset_key_is_lfu_candidate[OF h, of 9 9 0 None] o
  have "map_of (accessCounts (snd (Cache_set 9 9 ''a'' 0 None cache_ab))) ''a'' = Some 0
        \<and> map_of (accessTimes (snd (Cache_set 9 9 ''a'' 0 None cache_ab))) ''a'' = Some 9
        \<and> findLFUKey (snd (Cache_set 9 9 ''a'' 0 None cache_ab)) = Some ''a''"
    by (simp add: Let_def)
  with h c show ?thesis by simp
qed

section \<open>RateLimiter: refill\<close>

text \<open>
  C2, as the claim states it, fails: after one admission at time 0 with
  \<open>burstLimit = 1\<close>, a refill at 90000 ms adds one token, which took 60000 ms to
  accrue, and the code sets \<^verbatim>\<open>lastRefill\<close> to 90000, not to 60000.
\<close>

theorem refill_resets_lastRefill_counterexample:
  "tokens drained = 0 \<and> burstLimit drained = 1 \<and> lastRefill drained = 0
   \<and> tokensToAdd 90000 drained = 1
   \<and> tokens (refillTokens 90000 drained) = 1
   \<and> refill_lastRefill_spec 90000 drained = 60000
   \<and> lastRefill (refillTokens 90000 drained) = 90000"
  by (simp add: refillTokens_def refill_lastRefill_spec_def tokens_drained_90000)
     (simp add: drained_eq windowSizeMs_def)

text \<open>
  C2, as the code has it. The tokens to add are the floor of
  \<open>(now - lastRefill) / windowSizeMs * burstLimit\<close> as doubles compute it, the
  quotient rounded and then the product. When that is positive, \<^verbatim>\<open>tokens\<close>
  grows by it, clamped to \<^verbatim>\<open>burstLimit\<close>, and \<^verbatim>\<open>lastRefill\<close>
  becomes \<open>now\<close>; otherwise the limiter is unchanged. Every admission attempt
  refills first. With \<open>burstLimit = 50\<close> and 34800 ms elapsed the doubles give 28
  tokens, where the exact product is 29.
\<close>

theorem refill_sets_lastRefill_now:
  "tokensToAdd now s
     = \<lfloor>round_double (round_double (of_int (now - lastRefill s) / 60000)
                       * of_int (burstLimit s))\<rfloor>
   \<and> (0 < tokensToAdd now s \<longrightarrow>
        tokens (refillTokens now s) = min (burstLimit s) (tokens s + tokensToAdd now s)
        \<and> lastRefill (refillTokens now s) = now)
   \<and> (tokensToAdd now s \<le> 0 \<longrightarrow> refillTokens now s = s)
   \<and> (tokens s \<le> burstLimit s \<longrightarrow> tokens (refillTokens now s) \<le> burstLimit s)
   \<and> lastRefill (snd (waitForToken now s)) = lastRefill (refillTokens now s)
   \<and> lastRefill (refillTokens now s) \<in> {lastRefill s, now}"
proof -
  have "tokensToAdd now s
     = \<lfloor>round_double (round_double (of_int (now - lastRefill s) / 60000)
                       * of_int (burstLimit s))\<rfloor>"
    by (simp add: tokensToAdd_def windowSizeMs_def)
  moreover have "(0 < tokensToAdd now s \<longrightarrow>
        tokens (refillTokens now s) = min (burstLimit s) (tokens s + tokensToAdd now s)
        \<and> lastRefill (refillTokens now s) = now)
   \<and> (tokensToAdd now s \<le> 0 \<longrightarrow> refillTokens now s = s)
   \<and> (tokens s \<le> burstLimit s \<longrightarrow> tokens (refillTokens now s) \<le> burstLimit s)
   \<and> lastRefill (snd (waitForToken now s)) = lastRefill (refillTokens now s)
   \<and> lastRefill (refillTokens now s) \<in> {lastRefill s, now}"
    by (auto simp: limiter_defs Let_def)
  ultimately show ?thesis by blast
qed

theorem refill_sets_lastRefill_now_witness:
  "tokens drained \<le> burstLimit drained
   \<and> 0 < tokensToAdd 90000 drained
   \<and> tokens (refillTokens 90000 drained) = 1
   \<and> lastRefill (refillTokens 90000 drained) = 90000
   \<and> tokensToAdd 59999 drained \<le> 0
   \<and> refillTokens 59999 drained = drained
   \<and> tokensToAdd 34800 fresh50 = 28
   \<and> tokens (refillTokens 34800 fresh50) = 50
   \<and> tokens (refillTokens 34800 (fresh50\<lparr> tokens := 0 \<rparr>)) = 28
   \<and> lastRefill (refillTokens 34800 (fresh50\<lparr> tokens := 0 \<rparr>)) = 34800"
proof -
  have le: "tokens drained \<le> burstLimit drained"
    and t: "tokens drained = 0" and b: "burstLimit drained = 1"
    by (simp_all add: drained_eq)
  note add = tokens_drained_90000 and none = tokens_drained_59999
  from refill_sets_lastRefill_now[of 90000 drained] add t b
  have 1: "tokens (refillTokens 90000 drained) = 1"
    and 2: "lastRefill (refillTokens 90000 drained) = 90000"
    by simp_all
  from refill_sets_lastRefill_now[of 59999 drained] none
  have 3: "refillTokens 59999 drained = drained" by simp
  have f: "tokens fresh50 = 50" "burstLimit fresh50 = 50"
    by (simp_all add: fresh50_eq)
  have e: "tokensToAdd 34800 (fresh50\<lparr> tokens := 0 \<rparr>) = 28"
    using tokens_fresh50_34800 by (simp add: tokensToAdd_def)
  from refill_sets_lastRefill_now[of 34800 fresh50] tokens_fresh50_34800 f
  have 4: "tokens (refillTokens 34800 fresh50) = 50" by simp
  from refill_sets_lastRefill_now[of 34800 "fresh50\<lparr> tokens := 0 \<rparr>"] e f
  have 5: "tokens (refillTokens 34800 (fresh50\<lparr> tokens := 0 \<rparr>)) = 28"
    and 6: "lastRefill (refillTokens 34800 (fresh50\<lparr> tokens := 0 \<rparr>)) = 34800"
    by simp_all
  from le add 1 2 none 3 tokens_fresh50_34800 4 5 6 show ?thesis by simp
qed

section \<open>RateLimiter: admission and the wait on rejection\<close>

text \<open>
  C5, as the claim states it, fails in its second half: the wait is not the maximum
  of the time until the next token and the time until the oldest window entry
  expires. With \<open>burstLimit = 2\<close> spent at time 0, an attempt at 1 ms waits 30000 ms
  while the oldest entry expires in 59999 ms; with \<open>burstLimit = 1\<close> spent at time 0,
  an attempt at 59999 ms waits 60000 ms while the next token and the oldest entry are
  1 ms away.
\<close>

theorem wait_differs_from_named_times:
  "\<not> canMakeRequest 1 (cleanOldRequests 1 (refillTokens 1 two_spent))
   \<and> fst (waitForToken 1 two_spent) = Retry (Finite 30000)
   \<and> oldest_expires_in 1 (cleanOldRequests 1 (refillTokens 1 two_spent)) = 59999
   \<and> wait_as_claimed 1 (cleanOldRequests 1 (refillTokens 1 two_spent)) = 59999
   \<and> \<not> canMakeRequest 59999 (cleanOldRequests 59999 (refillTokens 59999 drained))
   \<and> fst (waitForToken 59999 drained) = Retry (Finite 60000)
   \<and> next_token_in 59999 (cleanOldRequests 59999 (refillTokens 59999 drained)) = 1
   \<and> wait_as_claimed 59999 (cleanOldRequests 59999 (refillTokens 59999 drained)) = 100"
proof -
  have a: "cleanOldRequests 1 (refillTokens 1 two_spent) = two_spent"
    by (simp add: refillTokens_def tokens_two_spent_1 cleanOldRequests_def)
       (simp add: two_spent_eq windowSizeMs_def)
  have b: "cleanOldRequests 59999 (refillTokens 59999 drained) = drained"
    by (simp add: refillTokens_def tokens_drained_59999 cleanOldRequests_def)
       (simp add: drained_eq windowSizeMs_def)
  have wa: "fst (waitForToken 1 two_spent) = Retry (Finite 30000)"
    by (simp add: waitForToken_def Let_def a)
       (simp add: two_spent_eq canMakeRequest_def calculateWaitTime_def timeUntilNextToken_def
          timeUntilWindowSlot_def windowSizeMs_def double_of_30000)
  have wb: "fst (waitForToken 59999 drained) = Retry (Finite 60000)"
    by (simp add: waitForToken_def Let_def b)
       (simp add: drained_eq canMakeRequest_def calculateWaitTime_def timeUntilNextToken_def
          timeUntilWindowSlot_def windowSizeMs_def double_of_60000)
  show ?thesis
    unfolding a b
    by (simp add: wa wb)
       (simp add: two_spent_eq drained_eq canMakeRequest_def oldest_expires_in_def
          next_token_in_def wait_as_claimed_def windowSizeMs_def)
qed

text \<open>
  C5, as the code has it. After refill and pruning, an attempt is admitted exactly
  when \<open>tokens > 0\<close> and the window holds fewer than \<^verbatim>\<open>requestsPerMinute\<close>
  timestamps. When it is not, the wait is the maximum of three numbers: the interval
  of one token, \<open>windowSizeMs / burstLimit\<close>, if \<open>tokens \<le> 0\<close> and 0 otherwise,
  whatever time has passed since the last refill; the time until the oldest timestamp
  leaves the window if the window is full and 0 otherwise; and 100 ms.
\<close>

theorem admission_rule:
  "(let s2 = cleanOldRequests now (refillTokens now s)
    in (canMakeRequest now s2 \<longleftrightarrow>
          0 < tokens s2 \<and> int (length (requests s2)) < requestsPerMinute s2)
       \<and> (fst (waitForToken now s) = Admitted \<longleftrightarrow> canMakeRequest now s2)
       \<and> (\<not> canMakeRequest now s2 \<longrightarrow>
             fst (waitForToken now s) = Retry (calculateWaitTime now s2))
       \<and> calculateWaitTime now s2 =
            js_max (js_max (timeUntilNextToken s2) (timeUntilWindowSlot now s2)) (Finite 100)
       \<and> timeUntilNextToken s2 =
            (if tokens s2 \<le> 0
             then js_div (Finite (of_int windowSizeMs)) (of_int (burstLimit s2))
             else Finite 0)
       \<and> (burstLimit s2 \<noteq> 0 \<longrightarrow>
             js_div (Finite (of_int windowSizeMs)) (of_int (burstLimit s2))
               = double_of (of_int windowSizeMs / of_int (burstLimit s2)))
       \<and> (requests s2 \<noteq> [] \<longrightarrow>
             timeUntilWindowSlot now s2 =
               (if requestsPerMinute s2 \<le> int (length (requests s2))
                then Finite (of_int (hd (requests s2) + windowSizeMs - now))
                else Finite 0))
       \<and> (requests s2 = [] \<and> 0 < requestsPerMinute s2 \<longrightarrow>
             timeUntilWindowSlot now s2 = Finite 0)
       \<and> (\<forall>a b. timeUntilNextToken s2 = Finite a \<and> timeUntilWindowSlot now s2 = Finite b \<longrightarrow>
             calculateWaitTime now s2 = Finite (max (max a b) 100)))"
  apply (simp only: Let_def)
  apply (intro conjI impI allI)
          apply (simp add: canMakeRequest_def)
         apply (auto simp: waitForToken_def Let_def)[1]
        apply (simp add: waitForToken_def Let_def)
       apply (simp add: calculateWaitTime_def)
      apply (simp add: timeUntilNextToken_def)
     apply simp
    apply (cases "requests (cleanOldRequests now (refillTokens now s))")
     apply (simp_all add: timeUntilWindowSlot_def)[2]
   apply (simp add: timeUntilWindowSlot_def)
  apply (simp add: calculateWaitTime_def)
  done

theorem admission_rule_witness:
  "\<not> canMakeRequest 1000 (cleanOldRequests 1000 (refillTokens 1000 window_full))
   \<and> requests (cleanOldRequests 1000 (refillTokens 1000 window_full)) \<noteq> []
   \<and> timeUntilNextToken (cleanOldRequests 1000 (refillTokens 1000 window_full)) = Finite 0
   \<and> timeUntilWindowSlot 1000 (cleanOldRequests 1000 (refillTokens 1000 window_full))
       = Finite 59000
   \<and> fst (waitForToken 1000 window_full) = Retry (Finite 59000)
   \<and> burstLimit (cleanOldRequests 1 (refillTokens 1 two_spent)) \<noteq> 0
   \<and> fst (waitForToken 1 two_spent) = Retry (Finite 30000)
   \<and> fst (waitForToken 60001 window_full) = Admitted"
proof -
  let ?s = "cleanOldRequests 1000 (refillTokens 1000 window_full)"
  have s: "?s = window_full"
    by (simp add: refillTokens_def tokens_window_full_1000 cleanOldRequests_def)
       (simp add: window_full_eq windowSizeMs_def)
  have f: "tokens ?s = 1" "requestsPerMinute ?s = 1" "requests ?s = [0]" "burstLimit ?s = 2"
    unfolding s by (simp_all add: window_full_eq)
  note r = admission_rule[of now s for now s, unfolded Let_def]
  from r[of 1000 window_full] f
  have no: "\<not> canMakeRequest 1000 ?s" by simp
  from r[of 1000 window_full] f have tn: "timeUntilNextToken ?s = Finite 0" by simp
  from r[of 1000 window_full] f have tw: "timeUntilWindowSlot 1000 ?s = Finite 59000"
    by (simp add: windowSizeMs_def)
  from r[of 1000 window_full] no tn tw
  have w: "fst (waitForToken 1000 window_full) = Retry (Finite 59000)"
    by simp
  let ?t = "cleanOldRequests 1 (refillTokens 1 two_spent)"
  have t: "?t = two_spent"
    by (simp add: refillTokens_def tokens_two_spent_1 cleanOldRequests_def)
       (simp add: two_spent_eq windowSizeMs_def)
  have g: "tokens ?t = 0" "requestsPerMinute ?t = 60" "requests ?t = [0, 0]" "burstLimit ?t = 2"
    unfolding t by (simp_all add: two_spent_eq)
  from r[of 1 two_spent] g have no2: "\<not> canMakeRequest 1 ?t" by simp
  from r[of 1 two_spent] g
  have tn2: "timeUntilNextToken ?t = Finite 30000"
    by (simp add: windowSizeMs_def double_of_30000)
  from r[of 1 two_spent] g have tw2: "timeUntilWindowSlot 1 ?t = Finite 0" by simp
  from r[of 1 two_spent] no2 tn2 tw2
  have w2: "fst (waitForToken 1 two_spent) = Retry (Finite 30000)" by simp
  let ?u = "cleanOldRequests 60001 (refillTokens 60001 window_full)"
  have f': "tokens ?u = 2" "requestsPerMinute ?u = 1" "requests ?u = []"
    by (simp_all add: refillTokens_def tokens_window_full_60001 cleanOldRequests_def)
       (simp_all add: window_full_eq windowSizeMs_def)
  from r[of 60001 window_full] f'
  have a: "fst (waitForToken 60001 window_full) = Admitted" by simp
  from no f tn tw w g w2 a show ?thesis by simp
qed

section \<open>Constructors and their options\<close>

text \<open>
  C6, as the claim states it, fails: the constructors validate nothing. A
  \<open>maxSize\<close> or \<open>requestsPerMinute\<close> of 0 becomes the default, a negative
  \<open>ttl\<close> or \<open>burstLimit\<close> and an unknown strategy are stored as given, and the
  construction succeeds.
\<close>

theorem constructors_accept_invalid_config:
  "maxSize (Cache_constructor \<lparr> opt_maxSize = Some 0, opt_ttl = Some (- 5), opt_strategy = Some ''bogus'' \<rparr> :: nat cache) = 1000
   \<and> ttl (Cache_constructor \<lparr> opt_maxSize = Some 0, opt_ttl = Some (- 5), opt_strategy = Some ''bogus'' \<rparr> :: nat cache) = - 5
   \<and> strategy (Cache_constructor \<lparr> opt_maxSize = Some 0, opt_ttl = Some (- 5), opt_strategy = Some ''bogus'' \<rparr> :: nat cache) = ''bogus''
   \<and> requestsPerMinute (RateLimiter_constructor \<lparr> opt_requestsPerMinute = Some 0, opt_burstLimit = Some (- 3) \<rparr> 0) = 60
   \<and> burstLimit (RateLimiter_constructor \<lparr> opt_requestsPerMinute = Some 0, opt_burstLimit = Some (- 3) \<rparr> 0) = - 3
   \<and> tokens (RateLimiter_constructor \<lparr> opt_requestsPerMinute = Some 0, opt_burstLimit = Some (- 3) \<rparr> 0) = - 3
   \<and> (new_Cache (Object \<lparr> opt_maxSize = Some 0, opt_ttl = Some (- 5), opt_strategy = Some ''bogus'' \<rparr>) :: js_error + nat cache)
       = Inr (Cache_constructor \<lparr> opt_maxSize = Some 0, opt_ttl = Some (- 5), opt_strategy = Some ''bogus'' \<rparr>)
   \<and> new_RateLimiter (Object \<lparr> opt_requestsPerMinute = Some 0, opt_burstLimit = Some (- 3) \<rparr>) 0
       = Inr (RateLimiter_constructor \<lparr> opt_requestsPerMinute = Some 0, opt_burstLimit = Some (- 3) \<rparr> 0)"
  by (simp add: Cache_constructor_def RateLimiter_constructor_def or_num_def or_str_def
      new_Cache_def new_RateLimiter_def)

text \<open>
  C6, as the code has it. Given an options object, construction succeeds: an option
  that is missing, 0 or the empty string takes its default (1000, 300,
  \<^verbatim>\<open>lru\<close>, 60, 10), and any other value is stored unchanged. The one error
  a constructor raises is the \<^verbatim>\<open>TypeError\<close> of reading an option of
  \<^verbatim>\<open>null\<close>.
\<close>

theorem constructors_default_falsy_options:
  "(opt_maxSize co = None \<or> opt_maxSize co = Some 0 \<longrightarrow> maxSize (Cache_constructor co :: 'v cache) = 1000)
   \<and> (\<forall>n. opt_maxSize co = Some n \<and> n \<noteq> 0 \<longrightarrow> maxSize (Cache_constructor co :: 'v cache) = n)
   \<and> (opt_ttl co = None \<or> opt_ttl co = Some 0 \<longrightarrow> ttl (Cache_constructor co :: 'v cache) = 300)
   \<and> (\<forall>n. opt_ttl co = Some n \<and> n \<noteq> 0 \<longrightarrow> ttl (Cache_constructor co :: 'v cache) = n)
   \<and> (opt_strategy co = None \<or> opt_strategy co = Some [] \<longrightarrow> strategy (Cache_constructor co :: 'v cache) = ''lru'')
   \<and> (\<forall>s. opt_strategy co = Some s \<and> s \<noteq> [] \<longrightarrow> strategy (Cache_constructor co :: 'v cache) = s)
   \<and> (opt_requestsPerMinute lo = None \<or> opt_requestsPerMinute lo = Some 0 \<longrightarrow>
         requestsPerMinute (RateLimiter_constructor lo now) = 60)
   \<and> (\<forall>n. opt_requestsPerMinute lo = Some n \<and> n \<noteq> 0 \<longrightarrow>
         requestsPerMinute (RateLimiter_constructor lo now) = n)
   \<and> (opt_burstLimit lo = None \<or> opt_burstLimit lo = Some 0 \<longrightarrow>
         burstLimit (RateLimiter_constructor lo now) = 10)
   \<and> (\<forall>n. opt_burstLimit lo = Some n \<and> n \<noteq> 0 \<longrightarrow>
         burstLimit (RateLimiter_constructor lo now) = n)
   \<and> tokens (RateLimiter_constructor lo now) = burstLimit (RateLimiter_constructor lo now)
   \<and> (new_Cache (Object co) :: js_error + 'v cache) = Inr (Cache_constructor co)
   \<and> new_RateLimiter (Object lo) now = Inr (RateLimiter_constructor lo now)
   \<and> (\<forall>e. (new_Cache ca :: js_error + 'v cache) = Inl e \<longrightarrow> ca = Null \<and> e = TypeError)
   \<and> (\<forall>e. new_RateLimiter la now = Inl e \<longrightarrow> la = Null \<and> e = TypeError)
   \<and> (new_Cache Null :: js_error + 'v cache) = Inl TypeError
   \<and> new_RateLimiter Null now = Inl TypeError"
  by (auto simp: Cache_constructor_def RateLimiter_constructor_def or_num_def or_str_def
      new_Cache_def new_RateLimiter_def split: argument.splits)

theorem constructors_default_falsy_options_witness:
  "maxSize (Cache_constructor
      \<lparr> opt_maxSize = Some 5, opt_ttl = None, opt_strategy = Some ''fifo'' \<rparr> :: nat cache) = 5
   \<and> ttl (Cache_constructor
      \<lparr> opt_maxSize = Some 5, opt_ttl = None, opt_strategy = Some ''fifo'' \<rparr> :: nat cache) = 300
   \<and> strategy (Cache_constructor
      \<lparr> opt_maxSize = Some 5, opt_ttl = None, opt_strategy = Some ''fifo'' \<rparr> :: nat cache) = ''fifo''
   \<and> maxSize (Cache_constructor
      \<lparr> opt_maxSize = Some 0, opt_ttl = Some 60, opt_strategy = Some [] \<rparr> :: nat cache) = 1000
   \<and> ttl (Cache_constructor
      \<lparr> opt_maxSize = Some 0, opt_ttl = Some 60, opt_strategy = Some [] \<rparr> :: nat cache) = 60
   \<and> strategy (Cache_constructor
      \<lparr> opt_maxSize = Some 0, opt_ttl = Some 60, opt_strategy = Some [] \<rparr> :: nat cache) = ''lru''
   \<and> requestsPerMinute (RateLimiter_constructor
      \<lparr> opt_requestsPerMinute = Some 30, opt_burstLimit = Some 0 \<rparr> 7) = 30
   \<and> burstLimit (RateLimiter_constructor
      \<lparr> opt_requestsPerMinute = Some 30, opt_burstLimit = Some 0 \<rparr> 7) = 10
   \<and> requestsPerMinute (RateLimiter_constructor
      \<lparr> opt_requestsPerMinute = None, opt_burstLimit = Some 4 \<rparr> 7) = 60
   \<and> burstLimit (RateLimiter_constructor
      \<lparr> opt_requestsPerMinute = None, opt_burstLimit = Some 4 \<rparr> 7) = 4
   \<and> (new_Cache Null :: js_error + nat cache) = Inl TypeError
   \<and> new_RateLimiter Null 7 = Inl TypeError"
  using
    constructors_default_falsy_options
      [of "\<lparr> opt_maxSize = Some 5, opt_ttl = None, opt_strategy = Some ''fifo'' \<rparr>"
          "\<lparr> opt_requestsPerMinute = Some 30, opt_burstLimit = Some 0 \<rparr>" 7 Null Null,
       where ?'v = nat]
    constructors_default_falsy_options
      [of "\<lparr> opt_maxSize = Some 0, opt_ttl = Some 60, opt_strategy = Some [] \<rparr>"
          "\<lparr> opt_requestsPerMinute = None, opt_burstLimit = Some 4 \<rparr>" 7 Null Null,
       where ?'v = nat]
  by simp

section \<open>APIRateLimiter: the retry hint\<close>




section \<open>GlobalRateLimiter: one limiter for each key\<close>

text \<open>
  C8. Over any run of \<^verbatim>\<open>getLimiter\<close> calls on a new registry, the store holds
  as many limiters as there are distinct keys; two calls return the same limiter
  exactly when their keys are equal; and the first call for a key returns a limiter
  built from that call's options.
\<close>

theorem getLimiter_one_instance_per_key:
  "(let (rs, g) = getLimiter_all calls GlobalRateLimiter_constructor
    in length rs = length calls
       \<and> length (store g) = card (fst ` set calls)
       \<and> (\<forall>i<length calls. \<exists>r<length (store g). rs ! i = Some r)
       \<and> (\<forall>i<length calls. \<forall>j<length calls.
             (rs ! i = rs ! j) = (fst (calls ! i) = fst (calls ! j)))
       \<and> (\<forall>i<length calls. (\<forall>j<i. fst (calls ! j) \<noteq> fst (calls ! i)) \<longrightarrow>
             (\<exists>r. rs ! i = Some r
                \<and> store g ! r
                    = RateLimiter_constructor (fst (snd (calls ! i))) (snd (snd (calls ! i))))))"
proof -
  let ?init = GlobalRateLimiter_constructor
  let ?rs = "fst (getLimiter_all calls ?init)"
  let ?g = "snd (getLimiter_all calls ?init)"
  have inv0: "registry_inv ?init"
    by (simp add: registry_inv_def GlobalRateLimiter_constructor_def)
  have inv: "registry_inv ?g" by (rule run_inv[OF inv0])
  have keys: "fst ` set (limiters ?g) = fst ` set calls"
    by (simp add: run_keys GlobalRateLimiter_constructor_def)
  have 1: "length ?rs = length calls" by (rule run_length)
  have 2: "length (store ?g) = card (fst ` set calls)"
    using inv_count[OF inv] keys by simp
  have some: "\<exists>r. map_of (limiters ?g) (fst (calls ! i)) = Some r" if "i < length calls" for i
  proof -
    from that have "fst (calls ! i) \<in> fst ` set (limiters ?g)"
      unfolding keys by simp
    then show ?thesis
      by (metis domD dom_map_of_conv_image_fst)
  qed
  have 3: "\<exists>r<length (store ?g). ?rs ! i = Some r" if "i < length calls" for i
    using some[OF that] inv_bound[OF inv] run_results[OF that, of ?init] by auto
  have 4: "(?rs ! i = ?rs ! j) = (fst (calls ! i) = fst (calls ! j))"
    if "i < length calls" "j < length calls" for i j
    using some[OF that(1)] inv_inj[OF inv] run_results[OF that(1), of ?init]
      run_results[OF that(2), of ?init] by auto
  have 5: "\<exists>r. ?rs ! i = Some r
              \<and> store ?g ! r = RateLimiter_constructor (fst (snd (calls ! i))) (snd (snd (calls ! i)))"
    if "i < length calls" "\<forall>j<i. fst (calls ! j) \<noteq> fst (calls ! i)" for i
    by (rule run_first_config[OF that(1) _ that(2)]) (simp add: GlobalRateLimiter_constructor_def)
  from 1 2 3 4 5 show ?thesis
    by (simp add: case_prod_unfold)
qed

theorem getLimiter_one_instance_per_key_witness:
  "length (fst (getLimiter_all lookups_aab GlobalRateLimiter_constructor)) = 3
   \<and> length (store (snd (getLimiter_all lookups_aab GlobalRateLimiter_constructor))) = 2
   \<and> fst (getLimiter_all lookups_aab GlobalRateLimiter_constructor) ! 0
       = fst (getLimiter_all lookups_aab GlobalRateLimiter_constructor) ! 1
   \<and> fst (getLimiter_all lookups_aab GlobalRateLimiter_constructor) ! 0
       \<noteq> fst (getLimiter_all lookups_aab GlobalRateLimiter_constructor) ! 2
   \<and> (\<exists>r. fst (getLimiter_all lookups_aab GlobalRateLimiter_constructor) ! 0 = Some r
          \<and> requestsPerMinute
               (store (snd (getLimiter_all lookups_aab GlobalRateLimiter_constructor)) ! r) = 5)"
proof -
  let ?rs = "fst (getLimiter_all lookups_aab GlobalRateLimiter_constructor)"
  let ?g = "snd (getLimiter_all lookups_aab GlobalRateLimiter_constructor)"
  note t = getLimiter_one_instance_per_key[of lookups_aab, unfolded case_prod_unfold Let_def]
  have n: "length lookups_aab = 3"
    and k: "fst (lookups_aab ! 0) = ''a''" "fst (lookups_aab ! 1) = ''a''"
      "fst (lookups_aab ! 2) = ''b''"
    and o: "fst (snd (lookups_aab ! 0)) = \<lparr> opt_requestsPerMinute = Some 5, opt_burstLimit = None \<rparr>"
    and c: "card (fst ` set lookups_aab) = 2"
    by (simp_all add: lookups_aab_def)
  from t n have 1: "length ?rs = 3" by simp
  from t c have 2: "length (store ?g) = 2" by simp
  from t have eq: "\<forall>i<length lookups_aab. \<forall>j<length lookups_aab.
      (?rs ! i = ?rs ! j) = (fst (lookups_aab ! i) = fst (lookups_aab ! j))"
    by blast
  from eq[rule_format, of 0 1] n k have 3: "?rs ! 0 = ?rs ! 1" by simp
  from eq[rule_format, of 0 2] n k have 4: "?rs ! 0 \<noteq> ?rs ! 2" by simp
  from t have "\<forall>i<length lookups_aab. (\<forall>j<i. fst (lookups_aab ! j) \<noteq> fst (lookups_aab ! i)) \<longrightarrow>
      (\<exists>r. ?rs ! i = Some r
          \<and> store ?g ! r = RateLimiter_constructor (fst (snd (lookups_aab ! i)))
                                                   (snd (snd (lookups_aab ! i))))"
    by blast
  from this[rule_format, of 0] n o
  have 5: "\<exists>r. ?rs ! 0 = Some r \<and> requestsPerMinute (store ?g ! r) = 5"
    by (auto simp: RateLimiter_constructor_def or_num_def)
  from 1 2 3 4 5 show ?thesis by blast
qed

text \<open>
  C10. When the key is registered, \<^verbatim>\<open>getLimiter(key, options)\<close> returns the
  registered limiter and leaves the registry and every limiter as they were, for any
  \<open>options\<close>. A limiter made by a first lookup is the one a second lookup returns,
  still as the first call's options built it.
\<close>

theorem getLimiter_existing_ignores_options:
  "(\<forall>r. map_of (limiters g) k = Some r \<longrightarrow>
       getLimiter k options now g = (Some r, g)
       \<and> getLimiter k options now g = getLimiter k options' now' g)
   \<and> (map_of (limiters g) k = None \<longrightarrow>
        (let (r1, g1) = getLimiter k options now g;
             (r2, g2) = getLimiter k options' now' g1
         in r1 = Some (length (store g)) \<and> r2 = r1 \<and> g2 = g1
            \<and> store g2 ! length (store g) = RateLimiter_constructor options now))"
proof (intro conjI allI impI)
  fix r
  assume "map_of (limiters g) k = Some r"
  then show "getLimiter k options now g = (Some r, g)"
    and "getLimiter k options now g = getLimiter k options' now' g"
    by (simp_all add: getLimiter_old)
next
  assume new: "map_of (limiters g) k = None"
  let ?g1 = "g\<lparr> store := store g @ [RateLimiter_constructor options now],
                 limiters := limiters g @ [(k, length (store g))] \<rparr>"
  have first: "getLimiter k options now g = (Some (length (store g)), ?g1)"
    by (rule getLimiter_new[OF new])
  have "map_of (limiters ?g1) k = Some (length (store g))"
    using new by (simp add: map_add_Some_iff)
  then have second: "getLimiter k options' now' ?g1 = (Some (length (store g)), ?g1)"
    by (rule getLimiter_old)
  show "let (r1, g1) = getLimiter k options now g;
            (r2, g2) = getLimiter k options' now' g1
        in r1 = Some (length (store g)) \<and> r2 = r1 \<and> g2 = g1
           \<and> store g2 ! length (store g) = RateLimiter_constructor options now"
    by (simp add: first second)
qed

theorem getLimiter_existing_ignores_options_witness:
  "map_of (limiters registry_a) ''a'' = Some 0
   \<and> getLimiter ''a'' \<lparr> opt_requestsPerMinute = Some 99, opt_burstLimit = Some 99 \<rparr> 50 registry_a
       = (Some 0, registry_a)
   \<and> requestsPerMinute (store registry_a ! 0) = 5
   \<and> map_of (limiters GlobalRateLimiter_constructor) ''a'' = None
   \<and> fst (getLimiter ''a'' \<lparr> opt_requestsPerMinute = Some 99, opt_burstLimit = Some 99 \<rparr> 50
            (snd (getLimiter ''a'' \<lparr> opt_requestsPerMinute = Some 5, opt_burstLimit = None \<rparr> 1
                    GlobalRateLimiter_constructor)))
       = Some 0"
proof -
  have h: "map_of (limiters registry_a) ''a'' = Some 0"
    and r: "requestsPerMinute (store registry_a ! 0) = 5"
    and e: "map_of (limiters GlobalRateLimiter_constructor) ''a'' = None"
      "length (store GlobalRateLimiter_constructor) = 0"
    by (simp_all add: registry_a_eq RateLimiter_constructor_def or_num_def
        GlobalRateLimiter_constructor_def)
  from getLimiter_existing_ignores_options[of registry_a "''a''"
      "\<lparr> opt_requestsPerMinute = Some 99, opt_burstLimit = Some 99 \<rparr>" 50] h
  have 1: "getLimiter ''a'' \<lparr> opt_requestsPerMinute = Some 99, opt_burstLimit = Some 99 \<rparr> 50
             registry_a = (Some 0, registry_a)"
    by blast
  from getLimiter_existing_ignores_options[of GlobalRateLimiter_constructor "''a''"
      "\<lparr> opt_requestsPerMinute = Some 5, opt_burstLimit = None \<rparr>" 1
      "\<lparr> opt_requestsPerMinute = Some 99, opt_burstLimit = Some 99 \<rparr>" 50] e
  have 2: "fst (getLimiter ''a'' \<lparr> opt_requestsPerMinute = Some 99, opt_burstLimit = Some 99 \<rparr> 50
            (snd (getLimiter ''a'' \<lparr> opt_requestsPerMinute = Some 5, opt_burstLimit = None \<rparr> 1
                    GlobalRateLimiter_constructor))) = Some 0"
    by (auto simp: case_prod_unfold Let_def)
  from h 1 r e 2 show ?thesis by blast
qed

end
